theory Spec2Isabelle
  imports Complex_Main "HOL-Library.AList"
begin

section \<open>Similarity selector (shared/similarity.ts)\<close>

text \<open>
  JavaScript strings are modelled as \<^typ>\<open>string\<close>, a list of 8-bit characters read
  as the code points 0..255.  A JavaScript number that the selector computes is a
  quotient of two array lengths; it is modelled by \<open>number\<close>: an exact rational, or one
  of the two non-finite results a division by zero has.  The threshold is the rational
  its literal denotes.  The rounding of the quotient and of the threshold to double
  precision is not modelled.
\<close>

datatype number = Num rat | Infinity | NaN

definition js_div :: "nat \<Rightarrow> nat \<Rightarrow> number" where
  "js_div p q = (if q \<noteq> 0 then Num (of_nat p / of_nat q)
                 else if p = 0 then NaN else Infinity)"

text \<open>\<open>x >= threshold\<close> for a finite threshold: false on NaN, true on Infinity.\<close>

fun num_ge :: "number \<Rightarrow> rat \<Rightarrow> bool" where
  "num_ge (Num r) t = (t \<le> r)"
| "num_ge Infinity t = True"
| "num_ge NaN t = False"

text \<open>\<open>String.prototype.toLowerCase\<close> on the code points 0..255: A-Z and the Latin-1
  capitals (U+00C0..U+00DE without the multiplication sign) move up by 32.\<close>

definition lower_char :: "char \<Rightarrow> char" where
  "lower_char c = (let n = (of_char c :: nat) in
     if (65 \<le> n \<and> n \<le> 90) \<or> (192 \<le> n \<and> n \<le> 222 \<and> n \<noteq> 215)
     then char_of (n + 32) else c)"

definition toLowerCase :: "string \<Rightarrow> string" where
  "toLowerCase text = map lower_char text"

text \<open>The character class \<open>[a-z0-9]\<close> and the class \<open>\s\<close> (tab, line feed, vertical
  tab, form feed, carriage return, space, no-break space).\<close>

definition is_alnum :: "char \<Rightarrow> bool" where
  "is_alnum c = (let n = (of_char c :: nat) in
     (97 \<le> n \<and> n \<le> 122) \<or> (48 \<le> n \<and> n \<le> 57))"

definition is_space :: "char \<Rightarrow> bool" where
  "is_space c = (let n = (of_char c :: nat) in
     (9 \<le> n \<and> n \<le> 13) \<or> n = 32 \<or> n = 160)"

text \<open>\<open>.replace(/[^a-z0-9\s]/g, " ")\<close>\<close>

definition replace_other :: "string \<Rightarrow> string" where
  "replace_other text =
     map (\<lambda>c. if is_alnum c \<or> is_space c then c else CHR '' '') text"

text \<open>\<open>.split(/\s+/)\<close>: the pieces between maximal runs of white space; a run at either
  end leaves an empty piece there, and the empty string splits into one empty piece.
  \<open>cur\<close> is the piece being read, \<open>in_sep\<close> says that the last character was white space.\<close>

fun split_from :: "string \<Rightarrow> bool \<Rightarrow> string \<Rightarrow> string list" where
  "split_from cur in_sep [] = [cur]"
| "split_from cur in_sep (c # cs) =
     (if is_space c
      then (if in_sep then split_from [] True cs else cur # split_from [] True cs)
      else split_from (cur @ [c]) False cs)"

definition split_spaces :: "string \<Rightarrow> string list" where
  "split_spaces text = split_from [] False text"

text \<open>\<open>tokenize\<close>; \<open>.filter(Boolean)\<close> keeps the non-empty pieces.\<close>

definition tokenize :: "string \<Rightarrow> string list" where
  "tokenize text =
     filter (\<lambda>piece. piece \<noteq> []) (split_spaces (replace_other (toLowerCase text)))"

text \<open>\<open>new Set(xs)\<close>: the elements in the order of their first insertion, each once.\<close>

definition set_add :: "'a list \<Rightarrow> 'a \<Rightarrow> 'a list" where
  "set_add s x = (if x \<in> set s then s else s @ [x])"

definition new_Set :: "'a list \<Rightarrow> 'a list" where
  "new_Set xs = foldl set_add [] xs"

text \<open>The two arrays whose lengths \<open>jaccardSimilarity\<close> divides:
  \<open>[...tokensA].filter((token) => tokensB.has(token))\<close> and
  \<open>new Set([...tokensA, ...tokensB])\<close>.\<close>

definition intersection_tokens :: "string list \<Rightarrow> string list \<Rightarrow> string list" where
  "intersection_tokens tokensA tokensB = filter (\<lambda>token. token \<in> set tokensB) tokensA"

definition union_tokens :: "string list \<Rightarrow> string list \<Rightarrow> string list" where
  "union_tokens tokensA tokensB = new_Set (tokensA @ tokensB)"

definition jaccardSimilarity :: "string \<Rightarrow> string \<Rightarrow> number" where
  "jaccardSimilarity a b =
     (let tokensA = new_Set (tokenize a);
          tokensB = new_Set (tokenize b)
      in if length tokensA = 0 \<and> length tokensB = 0 then Num 1
         else js_div (length (intersection_tokens tokensA tokensB))
                     (length (union_tokens tokensA tokensB)))"

definition isTooSimilar :: "string \<Rightarrow> string list \<Rightarrow> rat \<Rightarrow> bool" where
  "isTooSimilar candidate recent threshold =
     list_ex (\<lambda>item. num_ge (jaccardSimilarity candidate item) threshold) recent"

text \<open>The result of \<open>pickNextPost\<close>; \<open>val\<close> is its field \<open>value\<close>.\<close>

record selection =
  val :: string
  reason :: string

text \<open>The \<open>for\<close> loop of \<open>pickNextPost\<close> over the rest of the pool; \<open>None\<close> when it
  runs off the end.  \<open>recent[0] === candidate\<close> is false on an empty \<open>recent\<close>.\<close>

fun pick_loop :: "string list \<Rightarrow> string list \<Rightarrow> rat \<Rightarrow> selection option" where
  "pick_loop [] recent threshold = None"
| "pick_loop (candidate # rest) recent threshold =
     (if (case recent of [] \<Rightarrow> False | r # _ \<Rightarrow> r = candidate)
      then pick_loop rest recent threshold
      else if isTooSimilar candidate recent threshold
      then pick_loop rest recent threshold
      else Some \<lparr>val = candidate, reason = ''selected''\<rparr>)"

definition pickNextPost :: "string list \<Rightarrow> string list \<Rightarrow> rat \<Rightarrow> selection" where
  "pickNextPost pool recent threshold =
     (case pick_loop pool recent threshold of
        Some found \<Rightarrow> found
      | None \<Rightarrow>
          \<lparr>val = (case pool of [] \<Rightarrow> [] | first # _ \<Rightarrow> first),
           reason = ''fallback: no unique candidates under similarity threshold''\<rparr>)"

text \<open>The exclusion rule of the selector in the specification's words: a candidate is
  excluded when it is the most recent selection or when its similarity to some entry of
  the history reaches the threshold.\<close>

definition excluded :: "string list \<Rightarrow> rat \<Rightarrow> string \<Rightarrow> bool" where
  "excluded history threshold candidate \<longleftrightarrow>
     (history \<noteq> [] \<and> candidate = hd history) \<or>
     (\<exists>h \<in> set history. num_ge (jaccardSimilarity candidate h) threshold)"

section \<open>Message validator (shared/schema.ts)\<close>

text \<open>
  A JavaScript value as the validator and the transport see it: they test
  \<open>typeof\<close>, compare with \<open>null\<close>, read a property and ask \<open>key in value\<close>.  Every
  non-null value of type \<open>"object"\<close> (an array too, keyed by its indices) is an
  \<open>Object\<close> with the properties that can be read on it in a list, the first entry of
  a key being the one read; \<open>Function\<close> stands for the values of any other type.
\<close>

datatype jsvalue =
    Undefined
  | Null
  | Boolean bool
  | Number int
  | String string
  | Object "(string \<times> jsvalue) list"
  | Function

fun isObject :: "jsvalue \<Rightarrow> bool" where
  "isObject (Object props) = True"
| "isObject other = False"

text \<open>\<open>value[key]\<close>: \<open>undefined\<close> for a missing property and on a value that has no
  properties of its own in this model.\<close>

fun get_prop :: "jsvalue \<Rightarrow> string \<Rightarrow> jsvalue" where
  "get_prop (Object props) key =
     (case map_of props key of Some v \<Rightarrow> v | None \<Rightarrow> Undefined)"
| "get_prop other key = Undefined"

text \<open>\<open>key in value\<close> on an object.\<close>

fun has_key :: "jsvalue \<Rightarrow> string \<Rightarrow> bool" where
  "has_key (Object props) key = (map_of props key \<noteq> None)"
| "has_key other key = False"

definition hasKeys :: "jsvalue \<Rightarrow> string list \<Rightarrow> bool" where
  "hasKeys v keys = list_all (\<lambda>key. has_key v key) keys"

text \<open>
  \<open>message-schema.json\<close> is not among the sources, so its table \<open>schema.types\<close> is a
  parameter: a list of message types, each with the keys of its payload schema.
  \<open>baseTypeKeys\<close> is \<open>Object.keys(schema.types)\<close>.
\<close>

type_synonym schema_types = "(string \<times> string list) list"

definition baseTypeKeys :: "schema_types \<Rightarrow> string list" where
  "baseTypeKeys types = map fst types"

definition validateMessage :: "schema_types \<Rightarrow> jsvalue \<Rightarrow> bool" where
  "validateMessage types message =
     (if \<not> isObject message \<or>
         (case get_prop message ''type'' of String t \<Rightarrow> False | _ \<Rightarrow> True)
      then False
      else case get_prop message ''type'' of
        String t \<Rightarrow>
          if t \<notin> set (baseTypeKeys types) then False
          else if \<not> has_key message ''payload'' \<or> \<not> isObject (get_prop message ''payload'')
          then False
          else (case map_of types t of
                  Some requiredKeys \<Rightarrow> hasKeys (get_prop message ''payload'') requiredKeys
                | None \<Rightarrow> False)
      | _ \<Rightarrow> False)"

text \<open>Validity in the specification's words: a keyed record whose \<open>type\<close> is a string
  of the table, whose \<open>payload\<close> is a keyed record, and whose payload has every key
  the table requires for that type.\<close>

definition is_keyed_record :: "jsvalue \<Rightarrow> bool" where
  "is_keyed_record v = (case v of Object props \<Rightarrow> True | _ \<Rightarrow> False)"

definition required_keys :: "schema_types \<Rightarrow> string \<Rightarrow> string list" where
  "required_keys types t = (case map_of types t of Some keys \<Rightarrow> keys | None \<Rightarrow> [])"

definition valid_message :: "schema_types \<Rightarrow> jsvalue \<Rightarrow> bool" where
  "valid_message types message \<longleftrightarrow>
     is_keyed_record message \<and>
     (case get_prop message ''type'' of
        String t \<Rightarrow>
          t \<in> fst ` set types \<and>
          is_keyed_record (get_prop message ''payload'') \<and>
          (\<forall>key \<in> set (required_keys types t). has_key (get_prop message ''payload'') key)
      | _ \<Rightarrow> False)"

section \<open>Command transport (class \<open>ACPTransport\<close>, the version with \<open>sendCommand\<close>)\<close>

text \<open>
  The transport is an object mutated by its methods and by the callbacks the browser
  runs later, so each method takes the transport and returns it updated.  The browser
  is part of the state: \<open>timers\<close> are the callbacks \<open>window.setTimeout\<close> has scheduled
  and not yet run (due time in milliseconds of a virtual clock \<open>now\<close>, and the
  \<open>requestId\<close> the callback closes over), \<open>sent\<close> is the log of broadcasts with
  their times, \<open>settled\<close> the log of promises resolved or rejected later, and
  \<open>observed\<close> what the subscribed listeners were handed.  A promise is named by a
  number; \<open>resolve\<close> and \<open>reject\<close> of a pending entry are that number.
\<close>

datatype transport_error = MissingRequestId | CommandConflict | NoAck

text \<open>The messages of the three errors.\<close>

fun error_message :: "transport_error \<Rightarrow> string" where
  "error_message MissingRequestId = ''Command messages must include a requestId.''"
| "error_message CommandConflict = ''Another command is already in flight.''"
| "error_message NoAck = ''No ACK received from agent.''"

datatype outcome = Resolved jsvalue | RejectedWith transport_error

text \<open>What \<open>sendCommand\<close> returns: a promise already rejected, or promise number \<open>p\<close>
  that is settled later.\<close>

datatype command_promise = Rejected transport_error | Awaiting nat

record pending_entry =
  promise :: nat
  retriesLeft :: int
  message :: jsvalue
  timeoutMs :: nat

record transport =
  now :: nat
  pending :: "(jsvalue \<times> pending_entry) list"
  timers :: "(nat \<times> jsvalue) list"
  sent :: "(nat \<times> jsvalue) list"
  settled :: "(nat \<times> nat \<times> outcome) list"
  observed :: "jsvalue list"
  next_promise :: nat

text \<open>\<open>send\<close>: one broadcast, over the channel or over \<open>postMessage\<close> and local
  storage.\<close>

definition send :: "jsvalue \<Rightarrow> transport \<Rightarrow> transport" where
  "send msg tr = tr\<lparr>sent := sent tr @ [(now tr, msg)]\<rparr>"

text \<open>\<open>extractRequestId\<close>; \<open>??\<close> turns \<open>undefined\<close> and \<open>null\<close> into \<open>null\<close>.\<close>

definition extractRequestId :: "jsvalue \<Rightarrow> jsvalue" where
  "extractRequestId msg =
     (if has_key msg ''payload'' \<and> isObject (get_prop msg ''payload'')
      then (case get_prop (get_prop msg ''payload'') ''requestId'' of
              Undefined \<Rightarrow> Null
            | Null \<Rightarrow> Null
            | v \<Rightarrow> v)
      else Null)"

text \<open>\<open>!value\<close>\<close>

fun falsy :: "jsvalue \<Rightarrow> bool" where
  "falsy Undefined = True"
| "falsy Null = True"
| "falsy (Boolean b) = (\<not> b)"
| "falsy (Number n) = (n = 0)"
| "falsy (String s) = (s = [])"
| "falsy (Object props) = False"
| "falsy Function = False"

text \<open>\<open>dispatchWithRetry\<close>: send the entry's message and schedule the time-out
  callback \<open>timeoutMs\<close> from now.\<close>

definition dispatchWithRetry :: "jsvalue \<Rightarrow> transport \<Rightarrow> transport" where
  "dispatchWithRetry requestId tr =
     (case map_of (pending tr) requestId of
        None \<Rightarrow> tr
      | Some entry \<Rightarrow>
          (let tr1 = send (message entry) tr
           in tr1\<lparr>timers := timers tr1 @ [(now tr1 + timeoutMs entry, requestId)]\<rparr>))"

text \<open>The callback that \<open>dispatchWithRetry\<close> hands to \<open>setTimeout\<close>.\<close>

definition on_timeout :: "jsvalue \<Rightarrow> transport \<Rightarrow> transport" where
  "on_timeout requestId tr =
     (case map_of (pending tr) requestId of
        None \<Rightarrow> tr
      | Some current \<Rightarrow>
          if retriesLeft current \<le> 0
          then tr\<lparr>pending := AList.delete requestId (pending tr),
                  settled := settled tr @ [(now tr, promise current, RejectedWith NoAck)]\<rparr>
          else dispatchWithRetry requestId
                 (tr\<lparr>pending := AList.update requestId
                        (current\<lparr>retriesLeft := retriesLeft current - 1\<rparr>) (pending tr)\<rparr>))"

definition sendCommand ::
  "jsvalue \<Rightarrow> nat \<Rightarrow> int \<Rightarrow> transport \<Rightarrow> command_promise \<times> transport" where
  "sendCommand msg timeout_ms retries tr =
     (let requestId = extractRequestId msg
      in if falsy requestId then (Rejected MissingRequestId, tr)
         else if length (pending tr) \<ge> 1 then (Rejected CommandConflict, tr)
         else (let p = next_promise tr;
                   tr1 = tr\<lparr>pending := AList.update requestId
                                \<lparr>promise = p, retriesLeft = retries,
                                 message = msg, timeoutMs = timeout_ms\<rparr> (pending tr),
                            next_promise := p + 1\<rparr>
               in (Awaiting p, dispatchWithRetry requestId tr1)))"

text \<open>\<open>handleIncoming\<close>, with the table of the validator as a parameter.\<close>

definition handleIncoming :: "schema_types \<Rightarrow> jsvalue \<Rightarrow> transport \<Rightarrow> transport" where
  "handleIncoming types msg tr =
     (if \<not> validateMessage types msg then tr
      else (let payload = get_prop msg ''payload'';
                tr1 = (if get_prop msg ''type'' = String ''AGENT_ACK''
                       then (case map_of (pending tr) (get_prop payload ''requestId'') of
                               Some entry \<Rightarrow>
                                 tr\<lparr>pending := AList.delete (get_prop payload ''requestId'')
                                                  (pending tr),
                                    settled := settled tr @
                                                 [(now tr, promise entry, Resolved payload)]\<rparr>
                             | None \<Rightarrow> tr)
                       else tr)
            in tr1\<lparr>observed := observed tr1 @ [msg]\<rparr>))"

text \<open>
  The browser runs the scheduled callback that is due first, the one scheduled
  earlier among equals, and the clock is then at its due time at least.
\<close>

fun earliest :: "(nat \<times> jsvalue) \<Rightarrow> (nat \<times> jsvalue) list \<Rightarrow> (nat \<times> jsvalue)" where
  "earliest best [] = best"
| "earliest best (t # ts) = earliest (if fst t < fst best then t else best) ts"

definition fire_timer :: "transport \<Rightarrow> transport" where
  "fire_timer tr =
     (case timers tr of
        [] \<Rightarrow> tr
      | t # ts \<Rightarrow>
          (let next = earliest t ts
           in on_timeout (snd next)
                (tr\<lparr>now := max (now tr) (fst next), timers := remove1 next (timers tr)\<rparr>)))"


text \<open>
  What can happen to a transport while a command waits: a scheduled callback runs, a
  message comes in, or the application calls \<open>sendCommand\<close> again.
\<close>

datatype transport_event = TimerFires | Incoming jsvalue | Call jsvalue nat int

fun transport_step :: "schema_types \<Rightarrow> transport_event \<Rightarrow> transport \<Rightarrow> transport" where
  "transport_step types TimerFires tr = fire_timer tr"
| "transport_step types (Incoming msg) tr = handleIncoming types msg tr"
| "transport_step types (Call msg timeout_ms retries) tr =
     snd (sendCommand msg timeout_ms retries tr)"

fun run_transport :: "schema_types \<Rightarrow> transport_event list \<Rightarrow> transport \<Rightarrow> transport" where
  "run_transport types [] tr = tr"
| "run_transport types (ev # evs) tr = run_transport types evs (transport_step types ev tr)"

text \<open>The \<open>requestId\<close> of the callback that runs next, if one is scheduled.\<close>

definition due_rid :: "transport \<Rightarrow> jsvalue option" where
  "due_rid tr = (case timers tr of [] \<Rightarrow> None | t # ts \<Rightarrow> Some (snd (earliest t ts)))"

text \<open>How many time-outs of \<open>requestId\<close> pass when the events happen to \<open>tr\<close>: the
  events \<open>TimerFires\<close> at which the callback that runs is one scheduled for
  \<open>requestId\<close>.\<close>

fun timeouts_of ::
  "schema_types \<Rightarrow> jsvalue \<Rightarrow> transport_event list \<Rightarrow> transport \<Rightarrow> nat" where
  "timeouts_of types requestId [] tr = 0"
| "timeouts_of types requestId (ev # evs) tr =
     (if ev = TimerFires \<and> due_rid tr = Some requestId then 1 else 0) +
     timeouts_of types requestId evs (transport_step types ev tr)"

text \<open>An incoming message that the transport takes for the acknowledgment of
  \<open>requestId\<close>.\<close>

definition is_ack_for :: "schema_types \<Rightarrow> jsvalue \<Rightarrow> jsvalue \<Rightarrow> bool" where
  "is_ack_for types requestId msg \<longleftrightarrow>
     validateMessage types msg \<and> get_prop msg ''type'' = String ''AGENT_ACK'' \<and>
     get_prop (get_prop msg ''payload'') ''requestId'' = requestId"

text \<open>The times and messages of the first \<open>n\<close> sends of a command first sent at
  \<open>start\<close> and sent again every \<open>timeout_ms\<close>.\<close>

definition sends :: "nat \<Rightarrow> nat \<Rightarrow> jsvalue \<Rightarrow> nat \<Rightarrow> (nat \<times> jsvalue) list" where
  "sends start timeout_ms msg n = map (\<lambda>i. (start + i * timeout_ms, msg)) [0..<n]"

text \<open>
  The transport \<open>tr\<close> while the command \<open>msg\<close>, sent from \<open>tr0\<close> with promise
  \<open>p\<close>, waits and \<open>k\<close> of its time-outs have passed: its entry is the only one
  pending, with \<open>k\<close> retries used; its callback is scheduled last, a full
  \<open>timeout_ms\<close> after the last send, which the clock has not passed, and the callbacks
  before it are left over from other requests; the message has been sent \<open>k + 1\<close>
  times; nothing more has been settled.
\<close>

definition waiting ::
  "transport \<Rightarrow> jsvalue \<Rightarrow> nat \<Rightarrow> int \<Rightarrow> nat \<Rightarrow> nat \<Rightarrow> transport \<Rightarrow> bool" where
  "waiting tr0 msg timeout_ms retries p k tr \<longleftrightarrow>
     pending tr = [(extractRequestId msg,
                    \<lparr>promise = p, retriesLeft = retries - int k,
                     message = msg, timeoutMs = timeout_ms\<rparr>)] \<and>
     (\<exists>stale. timers tr = stale @ [(now tr0 + (k + 1) * timeout_ms, extractRequestId msg)] \<and>
              extractRequestId msg \<notin> snd ` set stale) \<and>
     now tr \<le> now tr0 + (k + 1) * timeout_ms \<and>
     sent tr = sent tr0 @ sends (now tr0) timeout_ms msg (k + 1) \<and>
     settled tr = settled tr0"

text \<open>Example inputs: a transport just constructed, a command with a \<open>requestId\<close>, a
  command of the older message format without one, the table entry of the
  acknowledgment, the acknowledgment of the request \<open>q0\<close>, and a transport with a
  command in flight.\<close>

definition idle_transport :: transport where
  "idle_transport = \<lparr>now = 0, pending = [], timers = [], sent = [], settled = [],
                      observed = [], next_promise = 0\<rparr>"

definition pause_command :: jsvalue where
  "pause_command = Object [(''type'', String ''CONTROL_PAUSE_RUN''),
     (''payload'', Object [(''requestId'', String ''q1''), (''runId'', String ''run-1'')])]"

definition legacy_pause :: jsvalue where
  "legacy_pause = Object [(''type'', String ''CONTROL_PAUSE_RUN''),
     (''payload'', Object [(''runId'', String ''run-1'')])]"

definition ack_types :: schema_types where
  "ack_types = [(''AGENT_ACK'', [''requestId'', ''commandType'', ''ok'', ''error''])]"

definition other_ack :: jsvalue where
  "other_ack = Object [(''type'', String ''AGENT_ACK''),
     (''payload'', Object [(''requestId'', String ''q0''), (''commandType'', String ''CONTROL_PING''),
                           (''ok'', Boolean True), (''error'', String [])])]"

definition busy_transport :: transport where
  "busy_transport = snd (sendCommand pause_command 4000 2 idle_transport)"

text \<open>A transport whose first command, with \<open>requestId\<close> \<open>q0\<close>, has been acknowledged:
  nothing is pending, and the time-out callback of that command is still scheduled.\<close>

definition ping_command :: jsvalue where
  "ping_command = Object [(''type'', String ''CONTROL_PING''),
     (''payload'', Object [(''requestId'', String ''q0'')])]"

definition acked_transport :: transport where
  "acked_transport =
     \<lparr>now = 0, pending = [], timers = [(4000, String ''q0'')],
      sent = [(0, ping_command)],
      settled = [(0, 0, Resolved (get_prop other_ack ''payload''))],
      observed = [other_ack], next_promise = 1\<rparr>"

section \<open>Run orchestrator (userscript/agent.user.js, version 1.1.0)\<close>

text \<open>
  \<open>runWorkflow\<close> is an asynchronous function: between two of its \<open>await\<close>s the
  message handler may run and change the flags of \<open>storageState\<close>.  An invocation is
  therefore a frame, holding the arguments, the local variables and the place where it
  stands, that moves one transition at a time; the message handler is a second
  operation on the same \<open>storageState\<close>.  What an invocation broadcasts, and the
  sleeps it asks for, are appended to the frame's \<open>out\<close>.  The places at which the
  model lets a message in are the awaits of the source and the loop heads between
  them, so every interleaving of the source is one of the model.

  The action executor is outside the model: a transition that runs a step is given
  the error messages of the attempts that fail, in order, every later attempt
  succeeding; an attempt succeeds or fails as a whole, a time-out being one of the
  failures.  The evidence bundle of a row result is left out, and capturing it is
  taken to succeed.
\<close>

text \<open>The fields of a step, of the settings and of the payload of a start command that
  \<open>runWorkflow\<close> itself reads; \<open>step_type\<close> and \<open>step_retries\<close> are \<open>step.type\<close> and
  \<open>step.retries\<close>, \<open>workflow_steps\<close> is \<open>workflow.steps\<close>.\<close>

record step =
  step_type :: string
  step_retries :: "int option"

record run_settings =
  delayMinMs :: nat
  delayMaxMs :: nat
  bestEffort :: bool
  stepThrough :: bool

record start_run =
  runId :: string
  workflow_steps :: "step list"
  rows :: "(string \<times> string) list list"
  settings :: run_settings
  resumeFrom :: int

text \<open>\<open>storageState\<close>; \<open>current_runId\<close> is its field \<open>runId\<close>.\<close>

record storageState =
  status :: string
  current_runId :: "string option"
  currentRowIndex :: int
  paused :: bool
  stopped :: bool
  killSwitchEnabled :: bool
  stepSignal :: "(string \<times> int \<times> int) option"

text \<open>Broadcasts (\<open>AGENT_...\<close>, with the fields of their payloads in the order of
  \<open>sendStatus\<close>, \<open>sendLog\<close>, \<open>sendRowResult\<close> and \<open>sendAck\<close>) and sleeps:
  \<open>ApplyDelay\<close> is a call of \<open>applyDelay(min, max)\<close>, \<open>Backoff\<close> the sleep between two
  attempts of a step.\<close>

datatype effect =
    AGENT_STATUS string string int string "nat option" "nat option"
  | AGENT_LOG string int nat string string
  | AGENT_ROW_RESULT string int string "string option"
  | AGENT_ACK string string bool string
  | AGENT_HELLO string
  | AGENT_PONG string
  | ApplyDelay nat nat
  | Backoff nat

text \<open>
  Where an invocation stands: at the head of the row loop for row \<open>i\<close>; inside the
  pause loop, asleep after a \<open>paused\<close> status; at the head of the step loop for step
  \<open>j\<close>; waiting for the step signal; waiting for \<open>retryWithBackoff\<close>; waiting for
  \<open>applyDelay\<close>; after the step loop; returned.  The boolean and the string are
  \<open>rowFailed\<close> and \<open>rowErrorMessage\<close>.
\<close>

datatype place =
    AtRow int
  | Pausing int
  | AtStep int nat bool string
  | Signal int nat step bool string
  | Executing int nat step bool string
  | Delaying int nat bool string
  | RowEnd int bool string
  | Returned

text \<open>An invocation: its argument, its place, and the local \<open>state\<close> object with
  \<open>currentRowIndex\<close>, \<open>successCount\<close> and \<open>failureCount\<close>.\<close>

record frame =
  call :: start_run
  place :: place
  state_currentRowIndex :: int
  successCount :: nat
  failureCount :: nat
  out :: "effect list"

definition MAX_BACKOFF_MS :: nat where
  "MAX_BACKOFF_MS = 8000"

text \<open>\<open>retryWithBackoff\<close> from attempt number \<open>attempt\<close>: the sleeps it makes and the
  error it throws, if any.  The list holds the errors of the failing attempts still to
  come; when it is empty the attempt succeeds.\<close>

fun retryWithBackoff :: "string list \<Rightarrow> nat \<Rightarrow> int \<Rightarrow> effect list \<times> string option" where
  "retryWithBackoff [] attempt retries = ([], None)"
| "retryWithBackoff (err # later) attempt retries =
     (if int attempt \<ge> retries then ([], Some err)
      else (let (sleeps, result) = retryWithBackoff later (Suc attempt) retries
            in (Backoff (min (500 * 2 ^ attempt) MAX_BACKOFF_MS) # sleeps, result)))"

text \<open>\<open>sendStatus(runId, status, state, message)\<close> with the local \<open>state\<close> of a
  frame.\<close>

definition sendStatus :: "string \<Rightarrow> string \<Rightarrow> frame \<Rightarrow> frame" where
  "sendStatus st msg fr =
     fr\<lparr>out := out fr @ [AGENT_STATUS (runId (call fr)) st (state_currentRowIndex fr) msg
                            (Some (successCount fr)) (Some (failureCount fr))]\<rparr>"

definition emit :: "effect \<Rightarrow> frame \<Rightarrow> frame" where
  "emit e fr = fr\<lparr>out := out fr @ [e]\<rparr>"

text \<open>The start of \<open>runWorkflow\<close>, up to the row loop.  The status of a blocked start
  is sent with \<open>storageState\<close> in the place of \<open>state\<close>, which has no counters.\<close>

definition runWorkflow :: "start_run \<Rightarrow> storageState \<Rightarrow> storageState \<times> frame" where
  "runWorkflow p ss =
     (if killSwitchEnabled ss
      then (ss, \<lparr>call = p, place = Returned, state_currentRowIndex = currentRowIndex ss,
                 successCount = 0, failureCount = 0,
                 out = [AGENT_STATUS (runId p) ''stopped'' (currentRowIndex ss)
                          ''Kill switch enabled'' None None,
                        AGENT_LOG (runId p) 0 0 ''error'' ''Run blocked by kill switch'']\<rparr>)
      else (ss\<lparr>status := ''running'', current_runId := Some (runId p),
               currentRowIndex := resumeFrom p, paused := False, stopped := False\<rparr>,
            sendStatus ''running'' ''Run started''
              \<lparr>call = p, place = AtRow (resumeFrom p), state_currentRowIndex = resumeFrom p,
               successCount = 0, failureCount = 0, out = []\<rparr>))"

text \<open>After the pause loop: the second kill-switch check, then the row begins.\<close>

definition begin_row :: "int \<Rightarrow> storageState \<times> frame \<Rightarrow> storageState \<times> frame" where
  "begin_row i sf =
     (let (ss, fr) = sf
      in if killSwitchEnabled ss
         then (ss\<lparr>stopped := True\<rparr>,
               (sendStatus ''stopped'' ''Kill switch enabled'' fr)\<lparr>place := Returned\<rparr>)
         else (ss, (sendStatus ''running'' ''Processing row''
                      (fr\<lparr>state_currentRowIndex := i\<rparr>))\<lparr>place := AtStep i 0 False []\<rparr>))"

text \<open>The head of the row loop: the loop condition, the boundary checks and the
  first test of the pause loop, with no \<open>await\<close> between them.\<close>

definition row_head :: "int \<Rightarrow> storageState \<times> frame \<Rightarrow> storageState \<times> frame" where
  "row_head i sf =
     (let (ss, fr) = sf
      in if \<not> i < int (length (rows (call fr)))
         then (ss\<lparr>status := ''complete'', current_runId := None\<rparr>,
               (sendStatus ''complete'' ''Run complete'' fr)\<lparr>place := Returned\<rparr>)
         else (let ss1 = (if killSwitchEnabled ss then ss\<lparr>stopped := True\<rparr> else ss)
               in if stopped ss1
                  then (ss1, (sendStatus ''stopped'' ''Run stopped'' fr)\<lparr>place := Returned\<rparr>)
                  else if paused ss1
                  then (ss1, (sendStatus ''paused'' ''Run paused'' fr)\<lparr>place := Pausing i\<rparr>)
                  else begin_row i (ss1, fr)))"

text \<open>The pause loop after its sleep of 500 ms: it tests \<open>paused\<close> and nothing else.\<close>

definition pause_loop :: "int \<Rightarrow> storageState \<times> frame \<Rightarrow> storageState \<times> frame" where
  "pause_loop i sf =
     (let (ss, fr) = sf
      in if paused ss
         then (ss, (sendStatus ''paused'' ''Run paused'' fr)\<lparr>place := Pausing i\<rparr>)
         else begin_row i (ss, fr))"

text \<open>The head of the step loop.  The step is read here; the source reads it after
  the wait for the step signal, from a workflow that does not change.\<close>

definition step_head ::
  "int \<Rightarrow> nat \<Rightarrow> bool \<Rightarrow> string \<Rightarrow> storageState \<times> frame \<Rightarrow> storageState \<times> frame" where
  "step_head i j rowFailed rowErrorMessage sf =
     (let (ss, fr) = sf
      in if j < length (workflow_steps (call fr))
         then (if stepThrough (settings (call fr))
               then (ss, fr\<lparr>place := Signal i j (workflow_steps (call fr) ! j)
                                       rowFailed rowErrorMessage\<rparr>)
               else (ss, fr\<lparr>place := Executing i j (workflow_steps (call fr) ! j)
                                       rowFailed rowErrorMessage\<rparr>))
         else (ss, fr\<lparr>place := RowEnd i rowFailed rowErrorMessage\<rparr>))"

text \<open>\<open>waitForStepSignal\<close>, one poll.\<close>

definition wait_signal ::
  "int \<Rightarrow> nat \<Rightarrow> step \<Rightarrow> bool \<Rightarrow> string \<Rightarrow> storageState \<times> frame \<Rightarrow> storageState \<times> frame" where
  "wait_signal i j s rowFailed rowErrorMessage sf =
     (let (ss, fr) = sf
      in if stepSignal ss = Some (runId (call fr), i, int j)
         then (ss\<lparr>stepSignal := None\<rparr>, fr\<lparr>place := Executing i j s rowFailed rowErrorMessage\<rparr>)
         else (ss, fr))"

text \<open>The body of the step loop from \<open>retryWithBackoff\<close> on: \<open>try\<close>, \<open>catch\<close> with its
  \<open>break\<close>, and the call of \<open>applyDelay\<close> that follows the \<open>try\<close> statement.\<close>

definition run_step ::
  "string list \<Rightarrow> int \<Rightarrow> nat \<Rightarrow> step \<Rightarrow> bool \<Rightarrow> string \<Rightarrow> storageState \<times> frame
     \<Rightarrow> storageState \<times> frame" where
  "run_step errs i j s rowFailed rowErrorMessage sf =
     (let (ss, fr) = sf;
          cfg = settings (call fr);
          retries = (case step_retries s of Some r \<Rightarrow> r | None \<Rightarrow> 0);
          (sleeps, result) = retryWithBackoff errs 0 retries;
          fr1 = fr\<lparr>out := out fr @ sleeps\<rparr>
      in case result of
           None \<Rightarrow>
             (ss, (emit (ApplyDelay (delayMinMs cfg) (delayMaxMs cfg))
                     (emit (AGENT_LOG (runId (call fr)) i j ''info''
                              (''Step '' @ step_type s @ '' completed'')) fr1))
                  \<lparr>place := Delaying i j rowFailed rowErrorMessage\<rparr>)
         | Some errorMessage \<Rightarrow>
             (let fr2 = emit (AGENT_LOG (runId (call fr)) i j ''error'' errorMessage) fr1
              in if \<not> bestEffort cfg
                 then (ss, fr2\<lparr>place := RowEnd i True errorMessage\<rparr>)
                 else (ss, (emit (ApplyDelay (delayMinMs cfg) (delayMaxMs cfg)) fr2)
                           \<lparr>place := Delaying i j True errorMessage\<rparr>)))"

text \<open>After the step loop: one counter, one row result, and the end of the run when
  the row failed without \<open>bestEffort\<close>.\<close>

definition row_end :: "int \<Rightarrow> bool \<Rightarrow> string \<Rightarrow> storageState \<times> frame \<Rightarrow> storageState \<times> frame" where
  "row_end i rowFailed rowErrorMessage sf =
     (let (ss, fr) = sf
      in if rowFailed
         then (let fr1 = emit (AGENT_ROW_RESULT (runId (call fr)) i ''failed''
                                 (Some (if rowErrorMessage = []
                                        then ''Row failed during execution''
                                        else rowErrorMessage)))
                           (fr\<lparr>failureCount := failureCount fr + 1\<rparr>)
               in if \<not> bestEffort (settings (call fr))
                  then (ss, (sendStatus ''error'' ''Row failed'' fr1)\<lparr>place := Returned\<rparr>)
                  else (ss, fr1\<lparr>place := AtRow (i + 1)\<rparr>))
         else (ss, (emit (AGENT_ROW_RESULT (runId (call fr)) i ''success'' None)
                      (fr\<lparr>successCount := successCount fr + 1\<rparr>))\<lparr>place := AtRow (i + 1)\<rparr>))"

text \<open>One transition of an invocation.\<close>

definition advance :: "string list \<Rightarrow> storageState \<times> frame \<Rightarrow> storageState \<times> frame" where
  "advance errs sf =
     (case place (snd sf) of
        AtRow i \<Rightarrow> row_head i sf
      | Pausing i \<Rightarrow> pause_loop i sf
      | AtStep i j rowFailed rowErrorMessage \<Rightarrow> step_head i j rowFailed rowErrorMessage sf
      | Signal i j s rowFailed rowErrorMessage \<Rightarrow> wait_signal i j s rowFailed rowErrorMessage sf
      | Executing i j s rowFailed rowErrorMessage \<Rightarrow>
          run_step errs i j s rowFailed rowErrorMessage sf
      | Delaying i j rowFailed rowErrorMessage \<Rightarrow>
          (fst sf, (snd sf)\<lparr>place := AtStep i (Suc j) rowFailed rowErrorMessage\<rparr>)
      | RowEnd i rowFailed rowErrorMessage \<Rightarrow> row_end i rowFailed rowErrorMessage sf
      | Returned \<Rightarrow> sf)"

text \<open>The agent: \<open>storageState\<close>, the invocations of \<open>runWorkflow\<close> made so far, and
  what the message handler itself has broadcast.\<close>

record agent =
  storage :: storageState
  frames :: "frame list"
  replies :: "effect list"

datatype command =
    CONTROL_HELLO string
  | CONTROL_PING string
  | CONTROL_START_RUN string start_run
  | CONTROL_PAUSE_RUN string
  | CONTROL_RESUME_RUN string
  | CONTROL_STOP_RUN string
  | CONTROL_KILL_SWITCH string bool
  | CONTROL_STEP_NEXT string string int int
  | OTHER_MESSAGE

definition sendAck :: "string \<Rightarrow> string \<Rightarrow> bool \<Rightarrow> string \<Rightarrow> agent \<Rightarrow> agent" where
  "sendAck requestId commandType ok err a =
     a\<lparr>replies := replies a @ [AGENT_ACK requestId commandType ok err]\<rparr>"

fun handleMessage :: "command \<Rightarrow> agent \<Rightarrow> agent" where
  "handleMessage (CONTROL_HELLO requestId) a =
     (let a1 = sendAck requestId ''CONTROL_HELLO'' True [] a
      in a1\<lparr>replies := replies a1 @ [AGENT_HELLO requestId]\<rparr>)"
| "handleMessage (CONTROL_PING requestId) a =
     a\<lparr>replies := replies a @ [AGENT_PONG requestId]\<rparr>"
| "handleMessage (CONTROL_START_RUN requestId p) a =
     (if killSwitchEnabled (storage a)
      then sendAck requestId ''CONTROL_START_RUN'' False ''Kill switch enabled''
             (a\<lparr>replies := replies a @
                   [AGENT_STATUS (runId p) ''stopped'' (currentRowIndex (storage a))
                      ''Kill switch enabled'' None None,
                    AGENT_LOG (runId p) 0 0 ''error'' ''Run blocked by kill switch'']\<rparr>)
      else if status (storage a) = ''running''
      then sendAck requestId ''CONTROL_START_RUN'' False ''Run already in progress'' a
      else (let a1 = sendAck requestId ''CONTROL_START_RUN'' True [] a;
                (ss, fr) = runWorkflow p (storage a1)
            in a1\<lparr>storage := ss, frames := frames a1 @ [fr]\<rparr>))"
| "handleMessage (CONTROL_PAUSE_RUN requestId) a =
     sendAck requestId ''CONTROL_PAUSE_RUN'' True []
       (a\<lparr>storage := (storage a)\<lparr>paused := True\<rparr>\<rparr>)"
| "handleMessage (CONTROL_RESUME_RUN requestId) a =
     sendAck requestId ''CONTROL_RESUME_RUN'' True []
       (a\<lparr>storage := (storage a)\<lparr>paused := False\<rparr>\<rparr>)"
| "handleMessage (CONTROL_STOP_RUN requestId) a =
     sendAck requestId ''CONTROL_STOP_RUN'' True []
       (a\<lparr>storage := (storage a)\<lparr>stopped := True\<rparr>\<rparr>)"
| "handleMessage (CONTROL_KILL_SWITCH requestId enabled) a =
     sendAck requestId ''CONTROL_KILL_SWITCH'' True []
       (a\<lparr>storage :=
            (if enabled
             then (storage a)\<lparr>killSwitchEnabled := True, stopped := True, paused := False\<rparr>
             else (storage a)\<lparr>killSwitchEnabled := False\<rparr>)\<rparr>)"
| "handleMessage (CONTROL_STEP_NEXT requestId run_id rowIndex stepIndex) a =
     sendAck requestId ''CONTROL_STEP_NEXT'' True []
       (a\<lparr>storage := (storage a)\<lparr>stepSignal := Some (run_id, rowIndex, stepIndex)\<rparr>\<rparr>)"
| "handleMessage OTHER_MESSAGE a = a"

text \<open>
  A schedule is a list of inputs: a message for the handler, or one transition of the
  \<open>n\<close>-th invocation, with the executor's errors for the case that the transition runs
  a step.
\<close>

datatype input = Deliver command | Tick nat "string list"

fun agent_step :: "input \<Rightarrow> agent \<Rightarrow> agent" where
  "agent_step (Deliver c) a = handleMessage c a"
| "agent_step (Tick n errs) a =
     (if n < length (frames a)
      then (let (ss, fr) = advance errs (storage a, frames a ! n)
            in a\<lparr>storage := ss, frames := (frames a)[n := fr]\<rparr>)
      else a)"

fun exec :: "input list \<Rightarrow> agent \<Rightarrow> agent" where
  "exec [] a = a"
| "exec (x # xs) a = exec xs (agent_step x a)"

text \<open>The agent when the userscript has loaded.\<close>

definition initial_agent :: agent where
  "initial_agent =
     \<lparr>storage = \<lparr>status = ''idle'', current_runId = None, currentRowIndex = - 1,
                  paused = False, stopped = False, killSwitchEnabled = False,
                  stepSignal = None\<rparr>,
      frames = [], replies = []\<rparr>"

text \<open>The row indices of the row results in a list of effects, in order.\<close>

fun row_results :: "effect list \<Rightarrow> int list" where
  "row_results [] = []"
| "row_results (AGENT_ROW_RESULT run_id i st err # es) = i # row_results es"
| "row_results (e # es) = row_results es"


text \<open>The status strings in a list of effects, in order.\<close>

fun statuses :: "effect list \<Rightarrow> string list" where
  "statuses [] = []"
| "statuses (AGENT_STATUS run_id st i msg succ fail # es) = st # statuses es"
| "statuses (e # es) = statuses es"

text \<open>The \<open>n\<close> consecutive row indices from \<open>first\<close> on.\<close>

definition rows_from :: "int \<Rightarrow> nat \<Rightarrow> int list" where
  "rows_from first n = map (\<lambda>k. first + int k) [0..<n]"

text \<open>The row an invocation is working on, if it has not returned.\<close>

fun row_of :: "place \<Rightarrow> int option" where
  "row_of (AtRow i) = Some i"
| "row_of (Pausing i) = Some i"
| "row_of (AtStep i j rowFailed rowErrorMessage) = Some i"
| "row_of (Signal i j s rowFailed rowErrorMessage) = Some i"
| "row_of (Executing i j s rowFailed rowErrorMessage) = Some i"
| "row_of (Delaying i j rowFailed rowErrorMessage) = Some i"
| "row_of (RowEnd i rowFailed rowErrorMessage) = Some i"
| "row_of Returned = None"

text \<open>
  The invariant of an invocation: the two counters add up to the number of row
  results sent, the row results are those of the consecutive rows from \<open>resumeFrom\<close>
  on, one each, and the row being worked on is the next one.
\<close>

definition frame_inv :: "frame \<Rightarrow> bool" where
  "frame_inv fr \<longleftrightarrow>
     (let sent_rows = row_results (out fr); first = resumeFrom (call fr)
      in successCount fr + failureCount fr = length sent_rows \<and>
         sent_rows = rows_from first (length sent_rows) \<and>
         (case row_of (place fr) of
            None \<Rightarrow> True
          | Some i \<Rightarrow> i = first + int (length sent_rows)))"

definition all_frames_inv :: "agent \<Rightarrow> bool" where
  "all_frames_inv a \<longleftrightarrow> (\<forall>fr \<in> set (frames a). frame_inv fr)"

text \<open>Example inputs: a run of two rows with one step, without best effort; a
  schedule in which the run is paused while it sleeps after the step of its first row,
  reaches the pause loop before the second row, and is then told to stop; the same
  schedule followed by a resume; a schedule that takes the run to the head of the
  row loop for its second row; a restart of the run from row 1; and a run of one row
  whose only step has one retry, with a schedule on which both attempts fail.\<close>

definition two_rows :: start_run where
  "two_rows =
     \<lparr>runId = ''run-1'',
      workflow_steps = [\<lparr>step_type = ''click'', step_retries = None\<rparr>],
      rows = [[(''url'', ''https://example.com/a'')], [(''url'', ''https://example.com/b'')]],
      settings = \<lparr>delayMinMs = 300, delayMaxMs = 900, bestEffort = False,
                   stepThrough = False\<rparr>,
      resumeFrom = 0\<rparr>"

definition paused_then_stopped :: "input list" where
  "paused_then_stopped =
     [Deliver (CONTROL_START_RUN ''q1'' two_rows),
      Tick 0 [], Tick 0 [], Tick 0 [],
      Deliver (CONTROL_PAUSE_RUN ''q2''),
      Tick 0 [], Tick 0 [], Tick 0 [], Tick 0 [],
      Deliver (CONTROL_STOP_RUN ''q3'')]"

definition resumed_after_stop :: "input list" where
  "resumed_after_stop =
     paused_then_stopped @ Deliver (CONTROL_RESUME_RUN ''q4'') # replicate 7 (Tick 0 [])"

definition first_row_done :: "input list" where
  "first_row_done =
     [Deliver (CONTROL_START_RUN ''q1'' two_rows),
      Tick 0 [], Tick 0 [], Tick 0 [], Tick 0 [], Tick 0 [], Tick 0 []]"

definition restarted :: "input list" where
  "restarted =
     Deliver (CONTROL_START_RUN ''q1'' (two_rows\<lparr>resumeFrom := 1\<rparr>)) # replicate 7 (Tick 0 [])"

definition one_row :: start_run where
  "one_row =
     \<lparr>runId = ''run-2'',
      workflow_steps = [\<lparr>step_type = ''click'', step_retries = Some 1\<rparr>],
      rows = [[(''url'', ''https://example.com/a'')]],
      settings = \<lparr>delayMinMs = 300, delayMaxMs = 900, bestEffort = False,
                   stepThrough = False\<rparr>,
      resumeFrom = 0\<rparr>"

definition step_fails :: "input list" where
  "step_fails =
     [Deliver (CONTROL_START_RUN ''q1'' one_row),
      Tick 0 [], Tick 0 [], Tick 0 [''boom'', ''boom again''], Tick 0 []]"

section \<open>Properties of the similarity selector\<close>

lemma foldl_set_add_set: "set (foldl set_add acc xs) = set acc \<union> set xs"
  by (induction xs arbitrary: acc) (auto simp: set_add_def)

lemma foldl_set_add_distinct: "distinct acc \<Longrightarrow> distinct (foldl set_add acc xs)"
  by (induction xs arbitrary: acc) (auto simp: set_add_def)

lemma set_new_Set: "set (new_Set xs) = set xs"
  by (simp add: new_Set_def foldl_set_add_set)

lemma distinct_new_Set: "distinct (new_Set xs)"
  by (simp add: new_Set_def foldl_set_add_distinct)

lemma length_new_Set: "length (new_Set xs) = card (set xs)"
  using distinct_card [OF distinct_new_Set, of xs] by (simp add: set_new_Set)

lemma new_Set_empty_iff: "new_Set xs = [] \<longleftrightarrow> xs = []"
  using length_new_Set [of xs] by (cases xs) auto

lemma length_intersection_tokens:
  "length (intersection_tokens (new_Set xs) (new_Set ys)) = card (set xs \<inter> set ys)"
proof -
  have "length (intersection_tokens (new_Set xs) (new_Set ys))
        = card (set (intersection_tokens (new_Set xs) (new_Set ys)))"
    by (rule distinct_card [symmetric]) (simp add: intersection_tokens_def distinct_new_Set)
  also have "set (intersection_tokens (new_Set xs) (new_Set ys)) = set xs \<inter> set ys"
    by (auto simp: intersection_tokens_def set_new_Set)
  finally show ?thesis .
qed

lemma length_union_tokens:
  "length (union_tokens (new_Set xs) (new_Set ys)) = card (set xs \<union> set ys)"
  by (simp add: union_tokens_def length_new_Set set_new_Set)

text \<open>The similarity is the Jaccard index of the two token sets.\<close>

lemma jaccardSimilarity_card:
  "jaccardSimilarity a b =
     (if tokenize a = [] \<and> tokenize b = [] then Num 1
      else js_div (card (set (tokenize a) \<inter> set (tokenize b)))
                  (card (set (tokenize a) \<union> set (tokenize b))))"
  by (simp add: jaccardSimilarity_def Let_def new_Set_empty_iff length_intersection_tokens
      length_union_tokens)

text \<open>
  Claim C9.  The similarity is symmetric, \<open>similarity(a, b) = similarity(b, a)\<close> for
  all strings, and the similarity of a string with itself is 1, for a non-empty
  string as for the empty one.
\<close>

theorem similarity_symmetric_reflexive:
  "jaccardSimilarity a b = jaccardSimilarity b a \<and> jaccardSimilarity a a = Num 1 \<and>
   jaccardSimilarity [] [] = Num 1"
proof -
  have refl: "jaccardSimilarity c c = Num 1" for c
  proof (cases "tokenize c = []")
    case True
    then show ?thesis by (simp add: jaccardSimilarity_card)
  next
    case False
    then have "card (set (tokenize c)) \<noteq> 0" by simp
    with False show ?thesis by (simp add: jaccardSimilarity_card js_div_def)
  qed
  have "jaccardSimilarity a b = jaccardSimilarity b a"
    by (simp add: jaccardSimilarity_card Int_commute Un_commute conj_commute)
  with refl show ?thesis by simp
qed

theorem similarity_symmetric_reflexive_witness:
  "jaccardSimilarity ''Hello world'' ''Hello there'' = Num (1 / 3) \<and>
   jaccardSimilarity ''Hello there'' ''Hello world'' = Num (1 / 3) \<and>
   jaccardSimilarity ''Hello world'' ''Hello world'' = Num 1"
proof -
  have "jaccardSimilarity ''Hello world'' ''Hello there'' = Num (1 / 3)"
    by code_simp
  then show ?thesis
    using similarity_symmetric_reflexive [of "''Hello world''" "''Hello there''"]
    by simp
qed

text \<open>
  Claim C10.  For every pair of strings the similarity is a finite number of the
  interval from 0 to 1: when both token sets are empty the result is 1 and nothing is
  divided; otherwise the union is not empty, the intersection is no longer than the
  union, and the result is the quotient of the two lengths.
\<close>

theorem similarity_in_unit_interval:
  "\<exists>r. jaccardSimilarity a b = Num r \<and> 0 \<le> r \<and> r \<le> 1 \<and>
       (let tokensA = new_Set (tokenize a); tokensB = new_Set (tokenize b)
        in if length tokensA = 0 \<and> length tokensB = 0 then r = 1
           else 0 < length (union_tokens tokensA tokensB) \<and>
                length (intersection_tokens tokensA tokensB)
                  \<le> length (union_tokens tokensA tokensB) \<and>
                r = of_nat (length (intersection_tokens tokensA tokensB)) /
                    of_nat (length (union_tokens tokensA tokensB)))"
proof (cases "tokenize a = [] \<and> tokenize b = []")
  case True
  then show ?thesis by (simp add: jaccardSimilarity_def Let_def new_Set_empty_iff)
next
  case False
  let ?I = "set (tokenize a) \<inter> set (tokenize b)"
  let ?U = "set (tokenize a) \<union> set (tokenize b)"
  have fin: "finite ?U" by simp
  have "?U \<noteq> {}" using False by auto
  with fin have pos: "0 < card ?U" by (simp add: card_gt_0_iff)
  have le: "card ?I \<le> card ?U" by (rule card_mono) auto
  have r0: "(0::rat) \<le> of_nat (card ?I) / of_nat (card ?U)" by simp
  have r1: "(of_nat (card ?I) :: rat) / of_nat (card ?U) \<le> 1"
    using pos le by (simp add: divide_le_eq_1)
  show ?thesis
    using False pos le r0 r1
    by (simp add: jaccardSimilarity_def Let_def new_Set_empty_iff length_intersection_tokens
        length_union_tokens js_div_def del: of_nat_0_le_iff)
qed

theorem similarity_in_unit_interval_witness:
  "\<exists>r. jaccardSimilarity ''Hello world'' ''Hello world!!'' = Num r \<and> 0 \<le> r \<and> r \<le> 1"
  using similarity_in_unit_interval [of "''Hello world''" "''Hello world!!''"]
  by blast

lemma pick_loop_find:
  "pick_loop pool history threshold =
     map_option (\<lambda>c. \<lparr>val = c, reason = ''selected''\<rparr>)
       (find (\<lambda>c. \<not> excluded history threshold c) pool)"
proof (induction pool)
  case Nil
  show ?case by simp
next
  case (Cons candidate rest)
  have skip: "excluded history threshold candidate \<longleftrightarrow>
      (case history of [] \<Rightarrow> False | r # _ \<Rightarrow> r = candidate) \<or>
      isTooSimilar candidate history threshold"
    by (cases history) (auto simp: excluded_def isTooSimilar_def list_ex_iff)
  show ?case
  proof (cases "excluded history threshold candidate")
    case True
    with skip Cons show ?thesis by auto
  next
    case False
    with skip show ?thesis by auto
  qed
qed

text \<open>
  Claim C7.  For every pool, history and threshold, \<open>pickNextPost\<close> scans the pool in
  order, skips a candidate exactly when it is \<open>history[0]\<close> or when its similarity to
  some entry of the history is at least the threshold, and returns the first candidate
  that is left with the reason \<open>selected\<close>; when none is left it returns \<open>pool[0]\<close>, or
  the empty string for an empty pool, with the fallback reason, which the source words
  \<open>fallback: no unique candidates under similarity threshold\<close>.  A candidate whose
  similarity to an entry of the history is the threshold itself is excluded.
\<close>

theorem pickNextPost_first_survivor:
  "pickNextPost pool history threshold =
     (case find (\<lambda>c. \<not> excluded history threshold c) pool of
        Some c \<Rightarrow> \<lparr>val = c, reason = ''selected''\<rparr>
      | None \<Rightarrow>
          \<lparr>val = (case pool of [] \<Rightarrow> [] | p # _ \<Rightarrow> p),
           reason = ''fallback: no unique candidates under similarity threshold''\<rparr>)
   \<and> (\<forall>c h. h \<in> set history \<and> jaccardSimilarity c h = Num threshold
          \<longrightarrow> excluded history threshold c)"
proof
  show "pickNextPost pool history threshold =
     (case find (\<lambda>c. \<not> excluded history threshold c) pool of
        Some c \<Rightarrow> \<lparr>val = c, reason = ''selected''\<rparr>
      | None \<Rightarrow>
          \<lparr>val = (case pool of [] \<Rightarrow> [] | p # _ \<Rightarrow> p),
           reason = ''fallback: no unique candidates under similarity threshold''\<rparr>)"
    by (simp add: pickNextPost_def pick_loop_find split: option.split)
next
  show "\<forall>c h. h \<in> set history \<and> jaccardSimilarity c h = Num threshold
          \<longrightarrow> excluded history threshold c"
  proof (intro allI impI)
    fix c h
    assume a: "h \<in> set history \<and> jaccardSimilarity c h = Num threshold"
    then have "num_ge (jaccardSimilarity c h) threshold" by simp
    with a show "excluded history threshold c" unfolding excluded_def by blast
  qed
qed

theorem pickNextPost_first_survivor_witness:
  "pickNextPost [''A quick update'', ''A quick update'', ''Different news'']
     [''A quick update''] (4 / 5) = \<lparr>val = ''Different news'', reason = ''selected''\<rparr>
   \<and> pickNextPost [''a b c d'', ''e a b c d''] [''zzz'', ''a b c d e''] (4 / 5)
       = \<lparr>val = ''a b c d'',
          reason = ''fallback: no unique candidates under similarity threshold''\<rparr>
   \<and> excluded [''zzz'', ''a b c d e''] (4 / 5) ''a b c d''"
proof -
  have f1: "find (\<lambda>c. \<not> excluded [''A quick update''] (4 / 5) c)
      [''A quick update'', ''A quick update'', ''Different news''] = Some ''Different news''"
    by code_simp
  have f2: "find (\<lambda>c. \<not> excluded [''zzz'', ''a b c d e''] (4 / 5) c)
      [''a b c d'', ''e a b c d''] = None"
    by code_simp
  have s: "jaccardSimilarity ''a b c d'' ''a b c d e'' = Num (4 / 5)"
    by code_simp
  have e: "excluded [''zzz'', ''a b c d e''] (4 / 5) ''a b c d''"
    using pickNextPost_first_survivor
      [where pool = "[]" and history = "[''zzz'', ''a b c d e'']" and threshold = "4 / 5"] s
    by auto
  show ?thesis
    using pickNextPost_first_survivor
      [where pool = "[''A quick update'', ''A quick update'', ''Different news'']"
         and history = "[''A quick update'']" and threshold = "4 / 5"]
      pickNextPost_first_survivor
      [where pool = "[''a b c d'', ''e a b c d'']"
         and history = "[''zzz'', ''a b c d e'']" and threshold = "4 / 5"]
      f1 f2 e
    by simp
qed

section \<open>Properties of the message validator\<close>

lemma is_keyed_record_iff: "is_keyed_record v = isObject v"
  by (cases v) (simp_all add: is_keyed_record_def)

text \<open>
  Claim C8.  For every input value and every table of known types,
  \<open>validateMessage\<close> returns true exactly when the value is a keyed record whose
  \<open>type\<close> is a string of the table, whose \<open>payload\<close> is a keyed record, and whose
  payload has every key required for that type; on every other value it returns
  false.  It is a total function of the value: no input makes it throw.
\<close>

theorem validateMessage_iff_valid:
  "validateMessage types msg \<longleftrightarrow> valid_message types msg"
proof (cases "isObject msg")
  case False
  then show ?thesis
    by (simp add: validateMessage_def valid_message_def is_keyed_record_iff)
next
  case True
  show ?thesis
  proof (cases "get_prop msg ''type''")
    case (String t)
    show ?thesis
    proof (cases "map_of types t")
      case None
      then have "t \<notin> fst ` set types" by (simp add: map_of_eq_None_iff)
      with True String show ?thesis
        by (simp add: validateMessage_def valid_message_def is_keyed_record_iff baseTypeKeys_def)
    next
      case (Some requiredKeys)
      then have "t \<in> fst ` set types" by (metis map_of_eq_None_iff option.distinct(1))
      moreover have "isObject (get_prop msg ''payload'') \<Longrightarrow> has_key msg ''payload''"
        using True by (cases msg) (auto split: option.splits)
      ultimately show ?thesis
        using True String Some
        by (auto simp: validateMessage_def valid_message_def is_keyed_record_iff
            baseTypeKeys_def hasKeys_def list_all_iff required_keys_def)
    qed
  qed (use True in \<open>simp_all add: validateMessage_def valid_message_def is_keyed_record_iff\<close>)
qed

theorem validateMessage_iff_valid_witness:
  "valid_message [(''CONTROL_PAUSE_RUN'', [''requestId'', ''runId''])]
     (Object [(''type'', String ''CONTROL_PAUSE_RUN''),
              (''payload'', Object [(''requestId'', String ''q1''), (''runId'', String ''run-123'')])])
   \<and> \<not> valid_message [(''CONTROL_PAUSE_RUN'', [''requestId'', ''runId''])]
     (Object [(''type'', String ''CONTROL_PAUSE_RUN''), (''payload'', Object [])])
   \<and> \<not> valid_message [(''CONTROL_PAUSE_RUN'', [''requestId'', ''runId''])]
     (Object [(''type'', String ''CONTROL_SHOUT''), (''payload'', Object [])])
   \<and> \<not> valid_message [(''CONTROL_PAUSE_RUN'', [''requestId'', ''runId''])] Null"
proof -
  let ?types = "[(''CONTROL_PAUSE_RUN'', [''requestId'', ''runId''])]"
  have "validateMessage ?types
     (Object [(''type'', String ''CONTROL_PAUSE_RUN''),
              (''payload'', Object [(''requestId'', String ''q1''), (''runId'', String ''run-123'')])])"
    by code_simp
  moreover have "\<not> validateMessage ?types
     (Object [(''type'', String ''CONTROL_PAUSE_RUN''), (''payload'', Object [])])"
    by code_simp
  moreover have "\<not> validateMessage ?types
     (Object [(''type'', String ''CONTROL_SHOUT''), (''payload'', Object [])])"
    by code_simp
  moreover have "\<not> validateMessage ?types Null"
    by code_simp
  ultimately show ?thesis
    unfolding validateMessage_iff_valid by blast
qed

section \<open>Properties of the command transport\<close>

lemma sends_Suc: "sends start t msg (Suc n) = sends start t msg n @ [(start + n * t, msg)]"
  by (simp add: sends_def)

lemma earliest_mem: "earliest best ts \<in> set (best # ts)"
  by (induction ts arbitrary: best) auto

lemma earliest_le_best: "fst (earliest best ts) \<le> fst best"
proof (induction ts arbitrary: best)
  case Nil
  show ?case by simp
next
  case (Cons t ts)
  have "fst (earliest (if fst t < fst best then t else best) ts)
      \<le> fst (if fst t < fst best then t else best)"
    by (rule Cons.IH)
  also have "\<dots> \<le> fst best" by simp
  finally show ?case by simp
qed

lemma earliest_le: "u \<in> set ts \<Longrightarrow> fst (earliest best ts) \<le> fst u"
proof (induction ts arbitrary: best)
  case Nil
  then show ?case by simp
next
  case (Cons t ts)
  show ?case
  proof (cases "u = t")
    case True
    have "fst (earliest (if fst t < fst best then t else best) ts)
        \<le> fst (if fst t < fst best then t else best)"
      by (rule earliest_le_best)
    also have "\<dots> \<le> fst t" by simp
    finally show ?thesis using True by simp
  next
    case False
    with Cons.prems have "u \<in> set ts" by simp
    then show ?thesis using Cons.IH by simp
  qed
qed

text \<open>The callback that runs next is one of those scheduled, and none is due before it.\<close>

lemma fire_timer_next:
  assumes "timers tr \<noteq> []"
  obtains nxt where "due_rid tr = Some (snd nxt)" "nxt \<in> set (timers tr)"
    "\<forall>u \<in> set (timers tr). fst nxt \<le> fst u"
    "fire_timer tr = on_timeout (snd nxt)
       (tr\<lparr>now := max (now tr) (fst nxt), timers := remove1 nxt (timers tr)\<rparr>)"
proof (cases "timers tr")
  case Nil
  with assms show ?thesis by simp
next
  case (Cons t ts)
  let ?nxt = "earliest t ts"
  have "due_rid tr = Some (snd ?nxt)" using Cons by (simp add: due_rid_def)
  moreover have "?nxt \<in> set (timers tr)" using Cons earliest_mem [of t ts] by simp
  moreover have "\<forall>u \<in> set (timers tr). fst ?nxt \<le> fst u"
    using Cons earliest_le [of _ ts t] earliest_le_best [of t ts] by auto
  moreover have "fire_timer tr = on_timeout (snd ?nxt)
       (tr\<lparr>now := max (now tr) (fst ?nxt), timers := remove1 ?nxt (timers tr)\<rparr>)"
    using Cons by (simp add: fire_timer_def Let_def)
  ultimately show ?thesis by (rule that)
qed

lemma sendCommand_waiting:
  assumes "\<not> falsy (extractRequestId msg)" "pending tr = []"
      "extractRequestId msg \<notin> snd ` set (timers tr)"
  shows "sendCommand msg timeout_ms retries tr =
           (Awaiting (next_promise tr), snd (sendCommand msg timeout_ms retries tr)) \<and>
         waiting tr msg timeout_ms retries (next_promise tr) 0
           (snd (sendCommand msg timeout_ms retries tr))"
  using assms
  by (simp add: sendCommand_def Let_def dispatchWithRetry_def send_def waiting_def sends_def)

text \<open>A callback left over from another request changes nothing but the clock.\<close>

lemma fire_timer_stale:
  assumes w: "waiting tr0 msg timeout_ms retries p k tr"
      and other: "due_rid tr \<noteq> Some (extractRequestId msg)"
  shows "waiting tr0 msg timeout_ms retries p k (fire_timer tr)"
proof -
  let ?rid = "extractRequestId msg"
  let ?due = "now tr0 + (k + 1) * timeout_ms"
  from w obtain stale where st: "timers tr = stale @ [(?due, ?rid)]" "?rid \<notin> snd ` set stale"
    by (auto simp: waiting_def)
  then have "timers tr \<noteq> []" by simp
  then obtain nxt where n: "due_rid tr = Some (snd nxt)" "nxt \<in> set (timers tr)"
    "\<forall>u \<in> set (timers tr). fst nxt \<le> fst u"
    "fire_timer tr = on_timeout (snd nxt)
       (tr\<lparr>now := max (now tr) (fst nxt), timers := remove1 nxt (timers tr)\<rparr>)"
    by (rule fire_timer_next)
  from n(1) other have ne: "snd nxt \<noteq> ?rid" by simp
  with n(2) st have mem: "nxt \<in> set stale" by auto
  have le: "fst nxt \<le> ?due" using n(3) st by simp
  have rem: "remove1 nxt (timers tr) = remove1 nxt stale @ [(?due, ?rid)]"
    using st mem by (simp add: remove1_append)
  have sub: "?rid \<notin> snd ` set (remove1 nxt stale)"
    using st(2) set_remove1_subset [of nxt stale] by auto
  have none: "map_of (pending tr) (snd nxt) = None"
    using w ne by (simp add: waiting_def)
  show ?thesis
    using w le rem sub none
    by (simp add: n(4) on_timeout_def waiting_def)
qed

lemma fire_timer_own:
  assumes w: "waiting tr0 msg timeout_ms retries p k tr"
      and own: "due_rid tr = Some (extractRequestId msg)"
  shows "fire_timer tr = on_timeout (extractRequestId msg)
           (tr\<lparr>now := now tr0 + (k + 1) * timeout_ms,
               timers := butlast (timers tr)\<rparr>) \<and>
         extractRequestId msg \<notin> snd ` set (butlast (timers tr))"
proof -
  let ?rid = "extractRequestId msg"
  let ?due = "now tr0 + (k + 1) * timeout_ms"
  from w obtain stale where st: "timers tr = stale @ [(?due, ?rid)]" "?rid \<notin> snd ` set stale"
    by (auto simp: waiting_def)
  then have "timers tr \<noteq> []" by simp
  then obtain nxt where n: "due_rid tr = Some (snd nxt)" "nxt \<in> set (timers tr)"
    "\<forall>u \<in> set (timers tr). fst nxt \<le> fst u"
    "fire_timer tr = on_timeout (snd nxt)
       (tr\<lparr>now := max (now tr) (fst nxt), timers := remove1 nxt (timers tr)\<rparr>)"
    by (rule fire_timer_next)
  from n(1) own have "snd nxt = ?rid" by simp
  with n(2) st have nx: "nxt = (?due, ?rid)" by (auto simp: image_iff)
  have "(?due, ?rid) \<notin> set stale" using st(2) by (auto simp: image_iff)
  then have rem: "remove1 nxt (timers tr) = stale"
    using st nx by (simp add: remove1_append)
  have "now tr \<le> ?due" using w by (simp add: waiting_def)
  then have "max (now tr) (fst nxt) = ?due" using nx by simp
  with rem nx st show ?thesis by (simp add: n(4))
qed

text \<open>A time-out with retries left sends the same message again and schedules the
  next time-out.\<close>

lemma fire_timer_waiting:
  assumes w: "waiting tr0 msg timeout_ms retries p k tr"
      and own: "due_rid tr = Some (extractRequestId msg)"
      and left: "int k < retries"
  shows "waiting tr0 msg timeout_ms retries p (Suc k) (fire_timer tr)"
proof -
  note f = fire_timer_own [OF w own]
  show ?thesis
    using w left f
    by (simp add: waiting_def on_timeout_def dispatchWithRetry_def send_def
        Let_def sends_Suc algebra_simps)
qed

text \<open>A time-out with no retry left rejects and clears the entry.\<close>

lemma fire_timer_last:
  assumes w: "waiting tr0 msg timeout_ms retries p k tr"
      and own: "due_rid tr = Some (extractRequestId msg)"
      and none_left: "retries \<le> int k"
  shows "sent (fire_timer tr) = sent tr0 @ sends (now tr0) timeout_ms msg (k + 1) \<and>
         settled (fire_timer tr) =
           settled tr0 @ [(now tr0 + (k + 1) * timeout_ms, p, RejectedWith NoAck)] \<and>
         pending (fire_timer tr) = []"
proof -
  note f = fire_timer_own [OF w own]
  show ?thesis
    using w none_left f
    by (simp add: waiting_def on_timeout_def Let_def algebra_simps)
qed

lemma handleIncoming_waiting:
  assumes "waiting tr0 msg timeout_ms retries p k tr"
      "\<not> is_ack_for types (extractRequestId msg) m"
  shows "waiting tr0 msg timeout_ms retries p k (handleIncoming types m tr)"
  using assms
  by (auto simp: waiting_def handleIncoming_def Let_def is_ack_for_def)

lemma sendCommand_again_waiting:
  assumes "waiting tr0 msg timeout_ms retries p k tr"
  shows "snd (sendCommand m t r tr) = tr"
  using assms by (simp add: waiting_def sendCommand_def Let_def)

lemma run_transport_waiting:
  assumes "waiting tr0 msg timeout_ms retries p k tr"
      "\<forall>m. Incoming m \<in> set evs \<longrightarrow> \<not> is_ack_for types (extractRequestId msg) m"
      "k + timeouts_of types (extractRequestId msg) evs tr \<le> nat retries"
  shows "waiting tr0 msg timeout_ms retries p
           (k + timeouts_of types (extractRequestId msg) evs tr) (run_transport types evs tr)"
  using assms
proof (induction evs arbitrary: k tr)
  case Nil
  then show ?case by simp
next
  case (Cons ev evs)
  let ?rid = "extractRequestId msg"
  show ?case
  proof (cases ev)
    case TimerFires
    show ?thesis
    proof (cases "due_rid tr = Some ?rid")
      case True
      with TimerFires have f: "timeouts_of types ?rid (ev # evs) tr =
          Suc (timeouts_of types ?rid evs (fire_timer tr))" by simp
      with Cons.prems have "int k < retries" by linarith
      then have w: "waiting tr0 msg timeout_ms retries p (Suc k) (fire_timer tr)"
        using Cons.prems(1) True by (simp add: fire_timer_waiting)
      have "waiting tr0 msg timeout_ms retries p
              (Suc k + timeouts_of types ?rid evs (fire_timer tr))
              (run_transport types evs (fire_timer tr))"
        using Cons.prems f by (intro Cons.IH [OF w]) auto
      with TimerFires f show ?thesis by simp
    next
      case False
      with TimerFires have f: "timeouts_of types ?rid (ev # evs) tr =
          timeouts_of types ?rid evs (fire_timer tr)" by simp
      have w: "waiting tr0 msg timeout_ms retries p k (fire_timer tr)"
        using Cons.prems(1) False by (rule fire_timer_stale)
      have "waiting tr0 msg timeout_ms retries p
              (k + timeouts_of types ?rid evs (fire_timer tr))
              (run_transport types evs (fire_timer tr))"
        using Cons.prems f by (intro Cons.IH [OF w]) auto
      with TimerFires f show ?thesis by simp
    qed
  next
    case (Incoming m)
    then have f: "timeouts_of types ?rid (ev # evs) tr =
        timeouts_of types ?rid evs (handleIncoming types m tr)" by simp
    have w: "waiting tr0 msg timeout_ms retries p k (handleIncoming types m tr)"
      using Cons.prems Incoming by (intro handleIncoming_waiting) auto
    have "waiting tr0 msg timeout_ms retries p
            (k + timeouts_of types ?rid evs (handleIncoming types m tr))
            (run_transport types evs (handleIncoming types m tr))"
      using Cons.prems f by (intro Cons.IH [OF w]) auto
    with Incoming f show ?thesis by simp
  next
    case (Call m t r)
    have same: "snd (sendCommand m t r tr) = tr"
      using Cons.prems(1) by (rule sendCommand_again_waiting)
    with Call have f: "timeouts_of types ?rid (ev # evs) tr = timeouts_of types ?rid evs tr"
      by simp
    have "waiting tr0 msg timeout_ms retries p (k + timeouts_of types ?rid evs tr)
            (run_transport types evs tr)"
      using Cons.prems f by (intro Cons.IH) auto
    with Call f same show ?thesis by simp
  qed
qed

text \<open>
  Claim C1.  Let a command with a non-empty \<open>requestId\<close> be sent with
  \<open>sendCommand(message, timeoutMs, retries)\<close> on a transport with nothing pending and
  no callback of that \<open>requestId\<close> scheduled (callbacks left over from other requests
  may be), and let no acknowledgment of that \<open>requestId\<close> come in, whatever other
  messages come in, whatever further calls of \<open>sendCommand\<close> are made and whenever the
  scheduled callbacks run.  As long as at most \<open>retries\<close> time-outs of the command
  have passed, the promise is not settled, the entry is pending, and the identical
  message has been sent once more than time-outs have passed, the send number \<open>i\<close>
  a full \<open>i \<times> timeoutMs\<close> after the first.  The time-out after that,
  \<open>(retries + 1) \<times> timeoutMs\<close> after the first send, rejects the promise with the
  no-acknowledgment error after exactly \<open>retries + 1\<close> sends and clears the pending
  entry.  (\<open>nat retries\<close> is \<open>retries\<close> for a count that is not negative; a negative
  count behaves as 0.)
\<close>

theorem sendCommand_no_ack:
  assumes rid: "\<not> falsy (extractRequestId msg)"
      and idle: "pending tr = []"
      and fresh: "extractRequestId msg \<notin> snd ` set (timers tr)"
      and no_ack: "\<forall>m. Incoming m \<in> set evs \<longrightarrow> \<not> is_ack_for types (extractRequestId msg) m"
      and few: "timeouts_of types (extractRequestId msg) evs
                  (snd (sendCommand msg timeout_ms retries tr)) \<le> nat retries"
  shows "\<exists>p tr1. sendCommand msg timeout_ms retries tr = (Awaiting p, tr1) \<and>
          (let n = timeouts_of types (extractRequestId msg) evs tr1;
               trk = run_transport types evs tr1
           in sent trk = sent tr @ sends (now tr) timeout_ms msg (n + 1) \<and>
              settled trk = settled tr \<and>
              map_of (pending trk) (extractRequestId msg) \<noteq> None \<and>
              (n = nat retries \<and> due_rid trk = Some (extractRequestId msg) \<longrightarrow>
                 (let trf = fire_timer trk
                  in sent trf = sent tr @ sends (now tr) timeout_ms msg (nat retries + 1) \<and>
                     settled trf = settled tr @
                       [(now tr + (nat retries + 1) * timeout_ms, p, RejectedWith NoAck)] \<and>
                     pending trf = [])))"
proof -
  let ?rid = "extractRequestId msg"
  let ?p = "next_promise tr"
  let ?tr1 = "snd (sendCommand msg timeout_ms retries tr)"
  let ?n = "timeouts_of types ?rid evs ?tr1"
  let ?trk = "run_transport types evs ?tr1"
  have start: "sendCommand msg timeout_ms retries tr = (Awaiting ?p, ?tr1)"
    and w0: "waiting tr msg timeout_ms retries ?p 0 ?tr1"
    using sendCommand_waiting [OF rid idle fresh] by simp_all
  have "0 + ?n \<le> nat retries" using few by simp
  then have wk: "waiting tr msg timeout_ms retries ?p (0 + ?n) ?trk"
    using w0 no_ack by (intro run_transport_waiting)
  then have k: "sent ?trk = sent tr @ sends (now tr) timeout_ms msg (?n + 1)"
      "settled ?trk = settled tr"
      "map_of (pending ?trk) ?rid \<noteq> None"
    by (simp_all add: waiting_def)
  have last: "sent (fire_timer ?trk) = sent tr @ sends (now tr) timeout_ms msg (nat retries + 1) \<and>
      settled (fire_timer ?trk) = settled tr @
         [(now tr + (nat retries + 1) * timeout_ms, ?p, RejectedWith NoAck)] \<and>
      pending (fire_timer ?trk) = []"
    if "?n = nat retries" "due_rid ?trk = Some ?rid"
  proof -
    have "retries \<le> int (0 + ?n)" using that(1) by simp
    from fire_timer_last [OF wk that(2) this] that(1) show ?thesis by simp
  qed
  show ?thesis
    using start k last
    by (intro exI [of _ ?p] exI [of _ ?tr1]) (simp add: Let_def)
qed

text \<open>The definitions that the examples of the transport unfold.\<close>

lemmas transport_example_defs =
  acked_transport_def pause_command_def other_ack_def ack_types_def ping_command_def
  idle_transport_def sendCommand_def extractRequestId_def dispatchWithRetry_def send_def
  fire_timer_def on_timeout_def handleIncoming_def validateMessage_def baseTypeKeys_def
  hasKeys_def due_rid_def is_ack_for_def

lemma acked_transport_reached:
  "handleIncoming ack_types other_ack (snd (sendCommand ping_command 4000 2 idle_transport))
     = acked_transport"
  by (simp add: transport_example_defs Let_def)

theorem sendCommand_no_ack_witness:
  "(let tr1 = snd (sendCommand pause_command 4000 2 acked_transport);
        trk = run_transport ack_types
                [TimerFires, TimerFires, Incoming other_ack, Call pause_command 4000 2,
                 TimerFires] tr1;
        trf = fire_timer trk
    in fst (sendCommand pause_command 4000 2 acked_transport) = Awaiting 1 \<and>
       sent trk = sent acked_transport @
                  [(0, pause_command), (4000, pause_command), (8000, pause_command)] \<and>
       settled trk = settled acked_transport \<and>
       sent trf = sent trk \<and>
       settled trf = settled acked_transport @ [(12000, 1, RejectedWith NoAck)] \<and>
       pending trf = [])"
proof -
  let ?evs = "[TimerFires, TimerFires, Incoming other_ack, Call pause_command 4000 2,
               TimerFires]"
  let ?tr1 = "snd (sendCommand pause_command 4000 2 acked_transport)"
  have rid: "\<not> falsy (extractRequestId pause_command)"
    by (simp add: pause_command_def extractRequestId_def)
  have idle: "pending acked_transport = []"
    by (simp add: acked_transport_def)
  have fresh: "extractRequestId pause_command \<notin> snd ` set (timers acked_transport)"
    by (simp add: pause_command_def extractRequestId_def acked_transport_def)
  have other: "\<not> is_ack_for ack_types (extractRequestId pause_command) other_ack"
    by (simp add: transport_example_defs)
  have no_ack: "\<forall>m. Incoming m \<in> set ?evs \<longrightarrow>
      \<not> is_ack_for ack_types (extractRequestId pause_command) m"
    using other by simp
  have n: "timeouts_of ack_types (extractRequestId pause_command) ?evs ?tr1 = 2"
    by (simp add: transport_example_defs Let_def)
  have few: "timeouts_of ack_types (extractRequestId pause_command) ?evs ?tr1 \<le> nat 2"
    using n by simp
  have due: "due_rid (run_transport ack_types ?evs ?tr1) = Some (extractRequestId pause_command)"
    by (simp add: transport_example_defs Let_def)
  have p: "fst (sendCommand pause_command 4000 2 acked_transport) = Awaiting 1"
    by (simp add: transport_example_defs Let_def)
  have s: "sends 0 4000 pause_command 3
      = [(0, pause_command), (4000, pause_command), (8000, pause_command)]"
    by (simp add: sends_def numeral_3_eq_3)
  have t0: "now acked_transport = 0"
    by (simp add: acked_transport_def)
  have "\<exists>p tr1. sendCommand pause_command 4000 2 acked_transport = (Awaiting p, tr1) \<and>
          (let n = timeouts_of ack_types (extractRequestId pause_command) ?evs tr1;
               trk = run_transport ack_types ?evs tr1
           in sent trk = sent acked_transport @
                 sends (now acked_transport) 4000 pause_command (n + 1) \<and>
              settled trk = settled acked_transport \<and>
              map_of (pending trk) (extractRequestId pause_command) \<noteq> None \<and>
              (n = nat 2 \<and> due_rid trk = Some (extractRequestId pause_command) \<longrightarrow>
                 (let trf = fire_timer trk
                  in sent trf = sent acked_transport @
                       sends (now acked_transport) 4000 pause_command (nat 2 + 1) \<and>
                     settled trf = settled acked_transport @
                       [(now acked_transport + (nat 2 + 1) * 4000, p, RejectedWith NoAck)] \<and>
                     pending trf = [])))"
    by (rule sendCommand_no_ack [OF rid idle fresh no_ack few])
  then obtain q tr1 where
    q: "sendCommand pause_command 4000 2 acked_transport = (Awaiting q, tr1)"
    and rest: "(let trk = run_transport ack_types ?evs tr1
           in sent trk = sent acked_transport @ sends 0 4000 pause_command 3 \<and>
              settled trk = settled acked_transport \<and>
              (let trf = fire_timer trk
                  in sent trf = sent acked_transport @ sends 0 4000 pause_command 3 \<and>
                     settled trf = settled acked_transport @ [(12000, q, RejectedWith NoAck)] \<and>
                     pending trf = []))"
    using n due t0 by (auto simp: Let_def)
  from q p have "q = 1" by simp
  with q rest s p show ?thesis by (simp add: Let_def)
qed

text \<open>
  Claim C2, as the source has it.  On a transport with a command pending, whatever its
  \<open>requestId\<close>, every call of \<open>sendCommand\<close> returns a promise already rejected, sends
  nothing, queues nothing and leaves the transport, its pending entry included, as it
  was.  The error is the conflict error when the message of the call carries a
  non-empty \<open>requestId\<close>; a message without one is rejected with the
  missing-\<open>requestId\<close> error, that check being made first.
\<close>

theorem sendCommand_while_pending:
  assumes "pending tr \<noteq> []"
  shows "sendCommand msg timeout_ms retries tr =
           (Rejected (if falsy (extractRequestId msg) then MissingRequestId
                      else CommandConflict), tr)"
proof -
  from assms have "length (pending tr) \<ge> 1" by (cases "pending tr") simp_all
  then show ?thesis by (simp add: sendCommand_def Let_def)
qed

theorem sendCommand_while_pending_witness:
  "pending busy_transport \<noteq> [] \<and>
   sendCommand pause_command 4000 2 busy_transport = (Rejected CommandConflict, busy_transport)"
proof -
  have b: "pending busy_transport \<noteq> []"
    unfolding busy_transport_def by code_simp
  have rid: "\<not> falsy (extractRequestId pause_command)"
    by code_simp
  show ?thesis
    using sendCommand_while_pending [OF b, of pause_command 4000 2] b rid by simp
qed

text \<open>The claim as it was stated fails for a call whose message has no \<open>requestId\<close>:
  with a command pending, the promise is rejected with the missing-\<open>requestId\<close> error
  and not with the conflict error.\<close>

theorem sendCommand_conflict_counterexample:
  "pending busy_transport \<noteq> [] \<and>
   sendCommand legacy_pause 4000 2 busy_transport = (Rejected MissingRequestId, busy_transport) \<and>
   fst (sendCommand legacy_pause 4000 2 busy_transport) \<noteq> Rejected CommandConflict"
proof -
  have b: "pending busy_transport \<noteq> []"
    unfolding busy_transport_def by code_simp
  have rid: "falsy (extractRequestId legacy_pause)"
    by code_simp
  have "length (pending busy_transport) \<ge> 1"
    using b by (cases "pending busy_transport") simp_all
  with rid b show ?thesis by (simp add: sendCommand_def Let_def)
qed

section \<open>Properties of the run orchestrator\<close>

lemma row_results_append: "row_results (xs @ ys) = row_results xs @ row_results ys"
  by (induction xs rule: row_results.induct) simp_all

lemma statuses_append: "statuses (xs @ ys) = statuses xs @ statuses ys"
  by (induction xs rule: statuses.induct) simp_all

lemma exec_append: "exec (xs @ ys) a = exec ys (exec xs a)"
  by (induction xs arbitrary: a) simp_all

lemma rows_from_Suc: "rows_from first (Suc n) = rows_from first n @ [first + int n]"
  by (simp add: rows_from_def)

lemma rows_from_ge: "i \<in> set (rows_from first n) \<Longrightarrow> first \<le> i"
  by (auto simp: rows_from_def)

lemma rows_from_distinct: "distinct (rows_from first n)"
  by (simp add: rows_from_def distinct_map inj_on_def)

lemma retryWithBackoff_no_rows: "row_results (fst (retryWithBackoff errs attempt retries)) = []"
  by (induction errs attempt retries rule: retryWithBackoff.induct)
     (auto simp: Let_def split: prod.splits)

subsection \<open>The invariant holds in every reachable state\<close>

lemma runWorkflow_inv: "frame_inv (snd (runWorkflow p ss))"
  by (simp add: runWorkflow_def frame_inv_def sendStatus_def rows_from_def)

lemma advance_inv:
  assumes "frame_inv fr"
  shows "frame_inv (snd (advance errs (ss, fr)))"
proof (cases "place fr")
  case (AtRow i)
  with assms show ?thesis
    by (auto simp: advance_def row_head_def begin_row_def sendStatus_def frame_inv_def
        row_results_append Let_def)
next
  case (Pausing i)
  with assms show ?thesis
    by (auto simp: advance_def pause_loop_def begin_row_def sendStatus_def frame_inv_def
        row_results_append Let_def)
next
  case (AtStep i j f e)
  with assms show ?thesis
    by (auto simp: advance_def step_head_def frame_inv_def Let_def)
next
  case (Signal i j s f e)
  with assms show ?thesis
    by (auto simp: advance_def wait_signal_def frame_inv_def Let_def)
next
  case (Executing i j s f e)
  obtain sleeps result where r:
    "retryWithBackoff errs 0 (case step_retries s of Some r \<Rightarrow> r | None \<Rightarrow> 0) = (sleeps, result)"
    by (cases "retryWithBackoff errs 0 (case step_retries s of Some r \<Rightarrow> r | None \<Rightarrow> 0)")
  then have "row_results sleeps = []"
    using retryWithBackoff_no_rows
      [of errs 0 "case step_retries s of Some r \<Rightarrow> r | None \<Rightarrow> 0"] by simp
  with assms Executing r show ?thesis
    by (auto simp: advance_def run_step_def emit_def frame_inv_def row_results_append Let_def
        split: option.splits)
next
  case (Delaying i j f e)
  with assms show ?thesis
    by (auto simp: advance_def frame_inv_def Let_def)
next
  case (RowEnd i f e)
  with assms show ?thesis
    by (auto simp: advance_def row_end_def emit_def sendStatus_def frame_inv_def
        row_results_append rows_from_Suc Let_def)
next
  case Returned
  with assms show ?thesis by (simp add: advance_def)
qed

lemma handleMessage_inv:
  assumes "all_frames_inv a"
  shows "all_frames_inv (handleMessage c a)"
proof (cases c)
  case (CONTROL_START_RUN q p)
  obtain ss fr where r: "runWorkflow p (storage a) = (ss, fr)"
    by (cases "runWorkflow p (storage a)")
  then have "frame_inv fr" using runWorkflow_inv [of p "storage a"] by simp
  with assms CONTROL_START_RUN r show ?thesis
    by (auto simp: all_frames_inv_def sendAck_def Let_def)
qed (use assms in \<open>auto simp: all_frames_inv_def sendAck_def Let_def\<close>)

lemma agent_step_inv:
  assumes "all_frames_inv a"
  shows "all_frames_inv (agent_step x a)"
proof (cases x)
  case (Deliver c)
  with assms show ?thesis by (simp add: handleMessage_inv)
next
  case (Tick n errs)
  show ?thesis
  proof (cases "n < length (frames a)")
    case False
    with assms Tick show ?thesis by simp
  next
    case True
    obtain ss fr where r: "advance errs (storage a, frames a ! n) = (ss, fr)"
      by (cases "advance errs (storage a, frames a ! n)")
    have "frame_inv (frames a ! n)"
      using assms True by (simp add: all_frames_inv_def)
    then have "frame_inv fr"
      using advance_inv [of "frames a ! n" errs "storage a"] r by simp
    moreover have "set ((frames a)[n := fr]) \<subseteq> insert fr (set (frames a))"
      by (rule set_update_subset_insert)
    ultimately show ?thesis
      using assms Tick True r by (auto simp: all_frames_inv_def)
  qed
qed

lemma exec_inv: "all_frames_inv a \<Longrightarrow> all_frames_inv (exec inputs a)"
  by (induction inputs arbitrary: a) (simp_all add: agent_step_inv)

lemma reachable_inv: "all_frames_inv (exec inputs initial_agent)"
  by (rule exec_inv) (simp add: all_frames_inv_def initial_agent_def)

subsection \<open>Row results and counters\<close>

text \<open>
  Claim C5.  Under every schedule of messages, transitions and executor outcomes, in
  every invocation of \<open>runWorkflow\<close>: the sum of \<open>successCount\<close> and \<open>failureCount\<close>
  is the number of row results the invocation has sent so far; no row has two row
  results; at the head of the row loop for row \<open>i\<close> the row results sent are those of
  the rows from \<open>resumeFrom\<close> to \<open>i - 1\<close>, one each; and the code after the step loop
  of row \<open>i\<close> adds one to exactly one of the two counters and sends exactly one row
  result, for row \<open>i\<close>, with status \<open>failed\<close> or \<open>success\<close>.
\<close>

theorem row_results_counted:
  "\<forall>fr \<in> set (frames (exec inputs initial_agent)).
     successCount fr + failureCount fr = length (row_results (out fr)) \<and>
     distinct (row_results (out fr)) \<and>
     (\<forall>i. place fr = AtRow i \<longrightarrow>
        resumeFrom (call fr) \<le> i \<and>
        row_results (out fr) = rows_from (resumeFrom (call fr)) (nat (i - resumeFrom (call fr)))) \<and>
     (\<forall>ss errs i rowFailed msg. place fr = RowEnd i rowFailed msg \<longrightarrow>
        (let fr' = snd (advance errs (ss, fr))
         in row_results (out fr') = row_results (out fr) @ [i] \<and>
            (if rowFailed
             then successCount fr' = successCount fr \<and> failureCount fr' = failureCount fr + 1
             else successCount fr' = successCount fr + 1 \<and> failureCount fr' = failureCount fr) \<and>
            (\<exists>err rest.
               out fr' = out fr @ AGENT_ROW_RESULT (runId (call fr)) i
                                   (if rowFailed then ''failed'' else ''success'') err # rest \<and>
               row_results rest = [])))"
proof
  fix fr
  assume "fr \<in> set (frames (exec inputs initial_agent))"
  then have inv: "frame_inv fr"
    using reachable_inv [of inputs] by (simp add: all_frames_inv_def)
  have count: "successCount fr + failureCount fr = length (row_results (out fr))"
    using inv by (simp add: frame_inv_def Let_def)
  have rows: "row_results (out fr) =
      rows_from (resumeFrom (call fr)) (length (row_results (out fr)))"
    using inv by (simp add: frame_inv_def Let_def)
  have dist: "distinct (row_results (out fr))"
    using rows rows_from_distinct [of "resumeFrom (call fr)" "length (row_results (out fr))"]
    by simp
  have boundary: "resumeFrom (call fr) \<le> i \<and>
      row_results (out fr) = rows_from (resumeFrom (call fr)) (nat (i - resumeFrom (call fr)))"
    if "place fr = AtRow i" for i
  proof -
    from inv that have "i = resumeFrom (call fr) + int (length (row_results (out fr)))"
      by (simp add: frame_inv_def Let_def)
    then show ?thesis using rows by simp
  qed
  have row_end: "(let fr' = snd (advance errs (ss, fr))
         in row_results (out fr') = row_results (out fr) @ [i] \<and>
            (if rowFailed
             then successCount fr' = successCount fr \<and> failureCount fr' = failureCount fr + 1
             else successCount fr' = successCount fr + 1 \<and> failureCount fr' = failureCount fr) \<and>
            (\<exists>err rest.
               out fr' = out fr @ AGENT_ROW_RESULT (runId (call fr)) i
                                   (if rowFailed then ''failed'' else ''success'') err # rest \<and>
               row_results rest = []))"
    if "place fr = RowEnd i rowFailed msg" for ss errs i rowFailed msg
    using that
    by (simp add: advance_def row_end_def emit_def sendStatus_def row_results_append Let_def)
  show "successCount fr + failureCount fr = length (row_results (out fr)) \<and>
     distinct (row_results (out fr)) \<and>
     (\<forall>i. place fr = AtRow i \<longrightarrow>
        resumeFrom (call fr) \<le> i \<and>
        row_results (out fr) = rows_from (resumeFrom (call fr)) (nat (i - resumeFrom (call fr)))) \<and>
     (\<forall>ss errs i rowFailed msg. place fr = RowEnd i rowFailed msg \<longrightarrow>
        (let fr' = snd (advance errs (ss, fr))
         in row_results (out fr') = row_results (out fr) @ [i] \<and>
            (if rowFailed
             then successCount fr' = successCount fr \<and> failureCount fr' = failureCount fr + 1
             else successCount fr' = successCount fr + 1 \<and> failureCount fr' = failureCount fr) \<and>
            (\<exists>err rest.
               out fr' = out fr @ AGENT_ROW_RESULT (runId (call fr)) i
                                   (if rowFailed then ''failed'' else ''success'') err # rest \<and>
               row_results rest = [])))"
    using count dist boundary row_end by blast
qed

theorem row_results_counted_witness:
  "map place (frames (exec first_row_done initial_agent)) = [AtRow 1] \<and>
   map (row_results \<circ> out) (frames (exec first_row_done initial_agent)) = [[0]] \<and>
   map (\<lambda>fr. successCount fr + failureCount fr) (frames (exec first_row_done initial_agent)) = [1]"
proof -
  have pl: "map place (frames (exec first_row_done initial_agent)) = [AtRow 1]"
    by code_simp
  have rr: "map (row_results \<circ> out) (frames (exec first_row_done initial_agent)) = [[0]]"
    by code_simp
  from pl obtain fr where fr: "frames (exec first_row_done initial_agent) = [fr]"
    by (auto simp: map_eq_Cons_conv)
  with rr have "row_results (out fr) = [0]" by simp
  moreover have "successCount fr + failureCount fr = length (row_results (out fr))"
    using row_results_counted [of first_row_done] fr by simp
  ultimately have "successCount fr + failureCount fr = 1" by simp
  with pl rr fr show ?thesis by simp
qed

text \<open>
  Claim C6.  Under every schedule, every row result sent by an invocation of
  \<open>runWorkflow\<close> started with the cursor \<open>resumeFrom\<close> has a row index that is at least
  \<open>resumeFrom\<close>; so a run restarted with \<open>resumeFrom = lastCompletedRow + 1\<close> sends no
  row result for a row up to \<open>lastCompletedRow\<close>.
\<close>

theorem row_results_from_cursor:
  "\<forall>fr \<in> set (frames (exec inputs initial_agent)).
     (\<forall>i \<in> set (row_results (out fr)). resumeFrom (call fr) \<le> i) \<and>
     (\<forall>lastCompletedRow. resumeFrom (call fr) = lastCompletedRow + 1 \<longrightarrow>
        (\<forall>i \<in> set (row_results (out fr)). lastCompletedRow < i))"
proof
  fix fr
  assume "fr \<in> set (frames (exec inputs initial_agent))"
  then have "frame_inv fr"
    using reachable_inv [of inputs] by (simp add: all_frames_inv_def)
  then have rows: "row_results (out fr) =
      rows_from (resumeFrom (call fr)) (length (row_results (out fr)))"
    by (simp add: frame_inv_def Let_def)
  have ge: "resumeFrom (call fr) \<le> i" if "i \<in> set (row_results (out fr))" for i
    using that rows rows_from_ge [of i "resumeFrom (call fr)" "length (row_results (out fr))"]
    by simp
  then show "(\<forall>i \<in> set (row_results (out fr)). resumeFrom (call fr) \<le> i) \<and>
     (\<forall>lastCompletedRow. resumeFrom (call fr) = lastCompletedRow + 1 \<longrightarrow>
        (\<forall>i \<in> set (row_results (out fr)). lastCompletedRow < i))"
    by fastforce
qed

theorem row_results_from_cursor_witness:
  "map (resumeFrom \<circ> call) (frames (exec restarted initial_agent)) = [1] \<and>
   map (row_results \<circ> out) (frames (exec restarted initial_agent)) = [[1]] \<and>
   list_all (\<lambda>fr. list_all (\<lambda>i. 0 < i) (row_results (out fr)))
     (frames (exec restarted initial_agent))"
proof -
  have c: "map (resumeFrom \<circ> call) (frames (exec restarted initial_agent)) = [1]"
    by code_simp
  have rr: "map (row_results \<circ> out) (frames (exec restarted initial_agent)) = [[1]]"
    by code_simp
  from c have "\<forall>fr \<in> set (frames (exec restarted initial_agent)). resumeFrom (call fr) = 0 + 1"
    by (auto simp: map_eq_Cons_conv)
  then have "\<forall>fr \<in> set (frames (exec restarted initial_agent)).
      \<forall>i \<in> set (row_results (out fr)). 0 < i"
    using row_results_from_cursor [of restarted] by blast
  then have "list_all (\<lambda>fr. list_all (\<lambda>i. 0 < i) (row_results (out fr)))
     (frames (exec restarted initial_agent))"
    by (simp add: list_all_iff)
  with c rr show ?thesis by simp
qed

subsection \<open>The delay between steps\<close>

text \<open>What \<open>retryWithBackoff\<close> does with retries left when an attempt fails.\<close>

lemma retryWithBackoff_retry:
  assumes "\<not> retries \<le> int attempt"
  shows "retryWithBackoff (err # later) attempt retries =
           (Backoff (min (500 * 2 ^ attempt) MAX_BACKOFF_MS)
              # fst (retryWithBackoff later (Suc attempt) retries),
            snd (retryWithBackoff later (Suc attempt) retries))"
  using assms by (simp split: prod.splits del: of_nat_Suc)

lemma retries_left_Suc:
  assumes "\<not> retries \<le> int attempt"
  shows "nat (retries - int attempt) = Suc (nat (retries - int (Suc attempt)))"
  using assms by simp

lemma upt_from_Suc: "[a..<a + Suc x] = a # [Suc a..<Suc a + x]"
  by (simp add: upt_conv_Cons)

lemma retryWithBackoff_result:
  "snd (retryWithBackoff errs attempt retries) =
     (if nat (retries - int attempt) < length errs
      then Some (errs ! nat (retries - int attempt)) else None)"
proof (induction errs arbitrary: attempt)
  case Nil
  show ?case by simp
next
  case (Cons err later)
  show ?case
  proof (cases "retries \<le> int attempt")
    case True
    then show ?thesis by simp
  next
    case False
    show ?thesis
      unfolding retryWithBackoff_retry [OF False] retries_left_Suc [OF False]
      using Cons.IH [of "Suc attempt"] by simp
  qed
qed

lemma retryWithBackoff_sleeps:
  "fst (retryWithBackoff errs attempt retries) =
     map (\<lambda>a. Backoff (min (500 * 2 ^ a) MAX_BACKOFF_MS))
       [attempt..<attempt + min (length errs) (nat (retries - int attempt))]"
proof (induction errs arbitrary: attempt)
  case Nil
  show ?case by simp
next
  case (Cons err later)
  show ?case
  proof (cases "retries \<le> int attempt")
    case True
    then show ?thesis by simp
  next
    case False
    have m: "min (length (err # later)) (Suc (nat (retries - int (Suc attempt))))
        = Suc (min (length later) (nat (retries - int (Suc attempt))))"
      by simp
    show ?thesis
      unfolding retryWithBackoff_retry [OF False] retries_left_Suc [OF False] m upt_from_Suc
      using Cons.IH [of "Suc attempt"] by simp
  qed
qed

text \<open>
  Claim C4, as the source has it.  Within a row's step loop the call of \<open>applyDelay\<close>
  follows every step that succeeds, and every step that fails when \<open>bestEffort\<close> is
  true.  When a step exhausts its retries (each of its \<open>retries + 1\<close> attempts fails)
  while \<open>bestEffort\<close> is false, the error is logged and the step loop is left by
  \<open>break\<close>: the invocation goes on after the loop with the row marked failed, and
  \<open>applyDelay\<close> is not called.
\<close>

theorem delay_after_step:
  assumes "place fr = Executing i j s rowFailed msg"
  shows "(let cfg = settings (call fr);
              retries = (case step_retries s of Some r \<Rightarrow> r | None \<Rightarrow> 0);
              sleeps = map (\<lambda>a. Backoff (min (500 * 2 ^ a) MAX_BACKOFF_MS))
                         [0..<min (length errs) (nat retries)];
              fr' = snd (advance errs (ss, fr))
          in if nat retries < length errs
             then (if bestEffort cfg
                   then out fr' = out fr @ sleeps @
                          [AGENT_LOG (runId (call fr)) i j ''error'' (errs ! nat retries),
                           ApplyDelay (delayMinMs cfg) (delayMaxMs cfg)] \<and>
                        place fr' = Delaying i j True (errs ! nat retries)
                   else out fr' = out fr @ sleeps @
                          [AGENT_LOG (runId (call fr)) i j ''error'' (errs ! nat retries)] \<and>
                        place fr' = RowEnd i True (errs ! nat retries))
             else out fr' = out fr @ sleeps @
                    [AGENT_LOG (runId (call fr)) i j ''info''
                       (''Step '' @ step_type s @ '' completed''),
                     ApplyDelay (delayMinMs cfg) (delayMaxMs cfg)] \<and>
                  place fr' = Delaying i j rowFailed msg)"
proof -
  let ?retries = "case step_retries s of Some r \<Rightarrow> r | None \<Rightarrow> 0"
  obtain sleeps result where r: "retryWithBackoff errs 0 ?retries = (sleeps, result)"
    by (cases "retryWithBackoff errs 0 ?retries")
  have res: "result = (if nat ?retries < length errs then Some (errs ! nat ?retries) else None)"
    using retryWithBackoff_result [of errs 0 ?retries] r by simp
  have sl: "sleeps = map (\<lambda>a. Backoff (min (500 * 2 ^ a) MAX_BACKOFF_MS))
                         [0..<min (length errs) (nat ?retries)]"
    using retryWithBackoff_sleeps [of errs 0 ?retries] r by simp
  show ?thesis
    using assms r res sl
    by (simp add: advance_def run_step_def emit_def Let_def)
qed

theorem delay_after_step_witness:
  "map place (frames (exec (butlast step_fails) initial_agent)) =
     [RowEnd 0 True ''boom again''] \<and>
   map out (frames (exec (butlast step_fails) initial_agent)) =
     [[AGENT_STATUS ''run-2'' ''running'' 0 ''Run started'' (Some 0) (Some 0),
       AGENT_STATUS ''run-2'' ''running'' 0 ''Processing row'' (Some 0) (Some 0),
       Backoff 500,
       AGENT_LOG ''run-2'' 0 0 ''error'' ''boom again'']]"
proof -
  let ?before = "exec (butlast (butlast step_fails)) initial_agent"
  have fr: "frames ?before =
     [\<lparr>call = one_row,
       place = Executing 0 0 \<lparr>step_type = ''click'', step_retries = Some 1\<rparr> False [],
       state_currentRowIndex = 0, successCount = 0, failureCount = 0,
       out = [AGENT_STATUS ''run-2'' ''running'' 0 ''Run started'' (Some 0) (Some 0),
              AGENT_STATUS ''run-2'' ''running'' 0 ''Processing row'' (Some 0) (Some 0)]\<rparr>]"
    by code_simp
  let ?fr = "hd (frames ?before)"
  have pl: "place ?fr = Executing 0 0 \<lparr>step_type = ''click'', step_retries = Some 1\<rparr> False []"
    using fr by simp
  have split: "butlast step_fails = butlast (butlast step_fails) @ [Tick 0 [''boom'', ''boom again'']]"
    by (simp add: step_fails_def)
  have next_fr: "frames (exec (butlast step_fails) initial_agent) =
      [snd (advance [''boom'', ''boom again''] (storage ?before, ?fr))]"
    by (subst split, subst exec_append) (simp add: fr split: prod.splits)
  have be: "\<not> bestEffort (settings (call ?fr))" "runId (call ?fr) = ''run-2''"
    using fr by (simp_all add: one_row_def)
  have o: "out ?fr = [AGENT_STATUS ''run-2'' ''running'' 0 ''Run started'' (Some 0) (Some 0),
              AGENT_STATUS ''run-2'' ''running'' 0 ''Processing row'' (Some 0) (Some 0)]"
    using fr by simp
  show ?thesis
    using delay_after_step [OF pl, of "[''boom'', ''boom again'']" "storage ?before"] be o
    by (simp add: next_fr Let_def MAX_BACKOFF_MS_def)
qed

text \<open>The claim as it was stated fails on the run of one row whose step fails both of
  its attempts without \<open>bestEffort\<close>: the invocation logs the error, sends the failed
  row result and the \<open>error\<close> status and returns, and no \<open>applyDelay\<close> is among its
  effects.\<close>

theorem delay_skipped_counterexample:
  "map out (frames (exec step_fails initial_agent)) =
     [[AGENT_STATUS ''run-2'' ''running'' 0 ''Run started'' (Some 0) (Some 0),
       AGENT_STATUS ''run-2'' ''running'' 0 ''Processing row'' (Some 0) (Some 0),
       Backoff 500,
       AGENT_LOG ''run-2'' 0 0 ''error'' ''boom again'',
       AGENT_ROW_RESULT ''run-2'' 0 ''failed'' (Some ''boom again''),
       AGENT_STATUS ''run-2'' ''error'' 0 ''Row failed'' (Some 0) (Some 1)]] \<and>
   map place (frames (exec step_fails initial_agent)) = [Returned]"
  by code_simp

subsection \<open>Stopping a paused run\<close>

text \<open>What the source does get right.  At the head of the row loop a run whose
  \<open>stopped\<close> flag is set halts, whatever \<open>paused\<close> is.\<close>

lemma stopped_at_row_head:
  assumes "place fr = AtRow i" "i < int (length (rows (call fr)))" "stopped ss"
  shows "place (snd (advance errs (ss, fr))) = Returned \<and>
         statuses (out (snd (advance errs (ss, fr)))) = statuses (out fr) @ [''stopped'']"
  using assms
  by (simp add: advance_def row_head_def sendStatus_def statuses_append Let_def)

text \<open>Enabling the kill switch ends the pause loop, because its handler clears
  \<open>paused\<close> and the kill switch is tested after the loop.\<close>

lemma kill_switch_in_pause_loop:
  assumes "n < length (frames a)" "place (frames a ! n) = Pausing i"
  shows "place (frames (agent_step (Tick n errs)
                  (handleMessage (CONTROL_KILL_SWITCH q True) a)) ! n) = Returned \<and>
         statuses (out (frames (agent_step (Tick n errs)
                  (handleMessage (CONTROL_KILL_SWITCH q True) a)) ! n)) =
           statuses (out (frames a ! n)) @ [''stopped'']"
  using assms
  by (simp add: sendAck_def advance_def pause_loop_def begin_row_def sendStatus_def
      statuses_append Let_def)

text \<open>One more turn of the pause loop: with \<open>paused\<close> set, whatever \<open>stopped\<close> is.\<close>

lemma pause_loop_turn:
  assumes "n < length (frames a)" "place (frames a ! n) = Pausing i" "paused (storage a)"
  shows "storage (agent_step (Tick n errs) a) = storage a \<and>
         length (frames (agent_step (Tick n errs) a)) = length (frames a) \<and>
         place (frames (agent_step (Tick n errs) a) ! n) = Pausing i \<and>
         statuses (out (frames (agent_step (Tick n errs) a) ! n)) =
           statuses (out (frames a ! n)) @ [''paused''] \<and>
         row_results (out (frames (agent_step (Tick n errs) a) ! n)) =
           row_results (out (frames a ! n))"
  using assms
  by (simp add: advance_def pause_loop_def sendStatus_def statuses_append row_results_append)

lemma pause_loop_stays:
  assumes "n < length (frames a)" "place (frames a ! n) = Pausing i" "paused (storage a)"
  shows "storage (exec (replicate k (Tick n errs)) a) = storage a \<and>
         length (frames (exec (replicate k (Tick n errs)) a)) = length (frames a) \<and>
         place (frames (exec (replicate k (Tick n errs)) a) ! n) = Pausing i \<and>
         statuses (out (frames (exec (replicate k (Tick n errs)) a) ! n)) =
           statuses (out (frames a ! n)) @ replicate k ''paused'' \<and>
         row_results (out (frames (exec (replicate k (Tick n errs)) a) ! n)) =
           row_results (out (frames a ! n))"
  using assms
proof (induction k arbitrary: a)
  case 0
  then show ?case by simp
next
  case (Suc k)
  let ?a1 = "agent_step (Tick n errs) a"
  note turn = pause_loop_turn [OF Suc.prems, of errs]
  have "n < length (frames ?a1)" "place (frames ?a1 ! n) = Pausing i" "paused (storage ?a1)"
    using turn Suc.prems by simp_all
  from Suc.IH [OF this] turn show ?case
    by (simp add: replicate_append_same [symmetric] del: agent_step.simps replicate_Suc)
       (simp add: replicate_append_same)
qed

text \<open>
  Claim C3.  Once a stop request or the enabling of the kill switch has been received,
  the run halts, sending a \<open>stopped\<close> status and leaving the row loop, at the next
  boundary check, whatever the paused flag is; in particular a run that is paused and
  then stopped, without a resume, still halts.

  The source does not do that for a run that is stopped while it sleeps in the pause
  loop, which tests \<open>paused\<close> and nothing else.  In the schedule evaluated here the
  run of two rows is paused while it sleeps after the step of its first row, enters
  the pause loop before the second row, and is then told to stop.  However many turns
  of the pause loop follow, the invocation stays in the loop with both flags set,
  sends \<open>paused\<close> each time and never \<open>stopped\<close>; and when it is resumed it processes
  the second row and ends with \<open>complete\<close>, the kill switch being the only thing
  tested after the pause loop.
\<close>

theorem stop_ignored_in_pause_loop:
  "stopped (storage (exec (paused_then_stopped @ replicate k (Tick 0 [])) initial_agent)) \<and>
   paused (storage (exec (paused_then_stopped @ replicate k (Tick 0 [])) initial_agent)) \<and>
   map place (frames (exec (paused_then_stopped @ replicate k (Tick 0 [])) initial_agent)) =
     [Pausing 1] \<and>
   map (statuses \<circ> out)
      (frames (exec (paused_then_stopped @ replicate k (Tick 0 [])) initial_agent)) =
     [[''running'', ''running'', ''paused''] @ replicate k ''paused''] \<and>
   map (statuses \<circ> out) (frames (exec resumed_after_stop initial_agent)) =
     [[''running'', ''running'', ''paused'', ''running'', ''complete'']] \<and>
   map (row_results \<circ> out) (frames (exec resumed_after_stop initial_agent)) = [[0, 1]]"
proof -
  let ?a = "exec paused_then_stopped initial_agent"
  let ?b = "exec (replicate k (Tick 0 [])) ?a"
  have flags: "stopped (storage ?a)" "paused (storage ?a)"
    by code_simp+
  have pl: "map place (frames ?a) = [Pausing 1]"
    by code_simp
  have st: "map (statuses \<circ> out) (frames ?a) = [[''running'', ''running'', ''paused'']]"
    by code_simp
  from pl have len: "0 < length (frames ?a)" and at: "place (frames ?a ! 0) = Pausing 1"
    by (auto simp: map_eq_Cons_conv)
  from pl have one: "length (frames ?a) = 1"
    by (auto simp: map_eq_Cons_conv)
  from st one have st0: "statuses (out (frames ?a ! 0)) = [''running'', ''running'', ''paused'']"
    by (cases "frames ?a") simp_all
  note stay = pause_loop_stays [OF len at flags(2), of k "[]"]
  from stay one have one_b: "length (frames ?b) = 1" by simp
  then obtain fr where fr: "frames ?b = [fr]"
    by (cases "frames ?b") simp_all
  have resumed: "map (statuses \<circ> out) (frames (exec resumed_after_stop initial_agent)) =
     [[''running'', ''running'', ''paused'', ''running'', ''complete'']]"
    "map (row_results \<circ> out) (frames (exec resumed_after_stop initial_agent)) = [[0, 1]]"
    by code_simp+
  show ?thesis
    using stay flags st0 fr resumed by (simp add: exec_append)
qed

end
